theory Spec2Isabelle
  imports Main "HOL-Library.Multiset"
begin

section \<open>Signal: the prioritised multicast callback registry\<close>

text \<open>
  \<^verbatim>\<open>src/lib/utils/Signal.js\<close>. A \<^verbatim>\<open>SignalHandler\<close> object pairs a callback
  with its priority; a \<^verbatim>\<open>Signal\<close> has the single field \<^verbatim>\<open>handlers\<close>, an array
  of such objects. Callbacks are compared by identity (\<^verbatim>\<open>equals\<close>), so the model is
  polymorphic in the type of callback identities.

  Priorities are JavaScript numbers. The engine connects its routers with
  \<^verbatim>\<open>Number.POSITIVE_INFINITY\<close> and \<^verbatim>\<open>Number.NEGATIVE_INFINITY\<close>, so the model has
  the integers and the two infinities; \<^verbatim>\<open>NaN\<close> and fractions are left out. The
  comparator \<^verbatim>\<open>a.priority - b.priority\<close> is negative, zero (or \<^verbatim>\<open>NaN\<close>, which
  \<^verbatim>\<open>Array.prototype.sort\<close> reads as zero) or positive exactly as the order below
  says less, equal or greater.
\<close>

datatype Priority = NegInfinity | Finite int | PosInfinity

instantiation Priority :: linorder
begin

fun less_eq_Priority :: "Priority \<Rightarrow> Priority \<Rightarrow> bool" where
  "less_eq_Priority NegInfinity _ = True"
| "less_eq_Priority _ PosInfinity = True"
| "less_eq_Priority (Finite a) (Finite b) = (a \<le> b)"
| "less_eq_Priority _ _ = False"

definition less_Priority :: "Priority \<Rightarrow> Priority \<Rightarrow> bool" where
  "less_Priority a b = (a \<le> b \<and> \<not> b \<le> (a::Priority))"

instance
proof
  fix x y z :: Priority
  show "(x < y) = (x \<le> y \<and> \<not> y \<le> x)"
    by (simp add: less_Priority_def)
  show "x \<le> x"
    by (cases x) simp_all
  show "x \<le> y \<Longrightarrow> y \<le> z \<Longrightarrow> x \<le> z"
    by (cases x; cases y; cases z) simp_all
  show "x \<le> y \<Longrightarrow> y \<le> x \<Longrightarrow> x = y"
    by (cases x; cases y) simp_all
  show "x \<le> y \<or> y \<le> x"
    by (cases x; cases y) auto
qed

end

record ('h, 'p) SignalHandler =
  handler :: 'h
  priority :: 'p

type_synonym ('h, 'p) Signal = "('h, 'p) SignalHandler list"

definition hasHandlers :: "('h, 'p) Signal \<Rightarrow> bool" where
  "hasHandlers handlers = (length handlers > 0)"

definition handlersAmount :: "('h, 'p) Signal \<Rightarrow> nat" where
  "handlersAmount handlers = length handlers"

text \<open>
  \<^verbatim>\<open>existingHandler.priority = priority\<close> writes into the first handler object that
  \<^verbatim>\<open>handlers.find\<close> returns.
\<close>

fun setPriority :: "'h \<Rightarrow> 'p \<Rightarrow> ('h, 'p) Signal \<Rightarrow> ('h, 'p) Signal" where
  "setPriority h p [] = []"
| "setPriority h p (it # its) =
     (if handler it = h then it\<lparr>priority := p\<rparr> # its else it # setPriority h p its)"

text \<open>
  \<^verbatim>\<open>Array.prototype.sort\<close> is stable (ECMAScript 2019); \<open>sort_key\<close> is the stable
  insertion sort of the library.
\<close>

definition connect :: "'h \<Rightarrow> 'p::linorder \<Rightarrow> ('h, 'p) Signal \<Rightarrow> ('h, 'p) Signal" where
  "connect h p handlers =
     (case find (\<lambda>it. handler it = h) handlers of
        Some existingHandler \<Rightarrow>
          (let needResort = (priority existingHandler \<noteq> p);
               handlers' = setPriority h p handlers
           in if needResort then sort_key priority handlers' else handlers')
      | None \<Rightarrow>
          (let needResort = (handlers \<noteq> [] \<and> priority (last handlers) > p);
               handlers' = handlers @ [\<lparr>handler = h, priority = p\<rparr>]
           in if needResort then sort_key priority handlers' else handlers'))"

text \<open>\<^verbatim>\<open>findIndex\<close> and \<^verbatim>\<open>splice(index, 1)\<close>: the first match is taken out.\<close>

fun disconnect :: "'h \<Rightarrow> ('h, 'p) Signal \<Rightarrow> ('h, 'p) Signal" where
  "disconnect h [] = []"
| "disconnect h (it # its) = (if handler it = h then its else it # disconnect h its)"

definition disconnectAll :: "('h, 'p) Signal \<Rightarrow> ('h, 'p) Signal" where
  "disconnectAll handlers = []"

subsection \<open>Outcomes of calls\<close>

text \<open>
  A call returns a value, or throws; either way the state it has written so far stays
  written. Loops that follow pointers are given fuel, and a call that runs out of fuel
  has the result \<open>None\<close>.
\<close>

datatype error = InvalidComponent | ResolveMismatch | DuplicateAppend

datatype ('a, 's) outcome = Return 'a 's | Throw error 's

type_synonym ('a, 's) result = "('a, 's) outcome option"

definition bind :: "('a, 's) result \<Rightarrow> ('a \<Rightarrow> 's \<Rightarrow> ('b, 's) result) \<Rightarrow> ('b, 's) result" where
  "bind r f = (case r of
       None \<Rightarrow> None
     | Some (Throw e s) \<Rightarrow> Some (Throw e s)
     | Some (Return v s) \<Rightarrow> f v s)"

text \<open>
  \<^verbatim>\<open>emit\<close> calls the handlers in array order. \<open>run\<close> says what calling one handler
  does to the state; an exception of a handler is not caught, so it ends the loop.
\<close>

fun emit :: "('h \<Rightarrow> 's \<Rightarrow> (unit, 's) result) \<Rightarrow> ('h, 'p) Signal \<Rightarrow> 's \<Rightarrow> (unit, 's) result" where
  "emit run [] s = Some (Return () s)"
| "emit run (it # its) s = bind (run (handler it) s) (\<lambda>_. emit run its)"

text \<open>The handler that only records that it was called, for reading the call order.\<close>

definition record_call :: "'h \<Rightarrow> 'h list \<Rightarrow> (unit, 'h list) result" where
  "record_call h calls = Some (Return () (calls @ [h]))"

datatype ('h, 'p) SignalCall = Connect 'h 'p | Disconnect 'h

fun call :: "('h, 'p::linorder) SignalCall \<Rightarrow> ('h, 'p) Signal \<Rightarrow> ('h, 'p) Signal" where
  "call (Connect h p) s = connect h p s"
| "call (Disconnect h) s = disconnect h s"

definition calls :: "('h, 'p::linorder) SignalCall list \<Rightarrow> ('h, 'p) Signal" where
  "calls cs = fold call cs []"

text \<open>
  What the specification expects of a sequence of calls, in its own words: the handlers
  currently connected, listed in connection order. A handler connected again keeps its
  place and takes the new priority in \<open>connected\<close>; in \<open>connected_latest\<close> it moves to
  the end, as if connected anew. The expected call order sorts either list by priority,
  ties staying in list order.
\<close>

fun connected_step :: "('h, 'p) SignalCall \<Rightarrow> ('h, 'p) Signal \<Rightarrow> ('h, 'p) Signal" where
  "connected_step (Connect h p) cs =
     (if h \<in> handler ` set cs then map (\<lambda>it. if handler it = h then it\<lparr>priority := p\<rparr> else it) cs
      else cs @ [\<lparr>handler = h, priority = p\<rparr>])"
| "connected_step (Disconnect h) cs = filter (\<lambda>it. handler it \<noteq> h) cs"

definition connected :: "('h, 'p) SignalCall list \<Rightarrow> ('h, 'p) Signal" where
  "connected cs = fold connected_step cs []"

fun connected_latest_step :: "('h, 'p) SignalCall \<Rightarrow> ('h, 'p) Signal \<Rightarrow> ('h, 'p) Signal" where
  "connected_latest_step (Connect h p) cs =
     filter (\<lambda>it. handler it \<noteq> h) cs @ [\<lparr>handler = h, priority = p\<rparr>]"
| "connected_latest_step (Disconnect h) cs = filter (\<lambda>it. handler it \<noteq> h) cs"

definition connected_latest :: "('h, 'p) SignalCall list \<Rightarrow> ('h, 'p) Signal" where
  "connected_latest cs = fold connected_latest_step cs []"

definition expected_order :: "('h, 'p::linorder) Signal \<Rightarrow> 'h list" where
  "expected_order cs = map handler (sort_key priority cs)"

text \<open>
  A sequence of calls is steady when no \<^verbatim>\<open>connect\<close> gives a handler that is
  connected at that moment a priority other than the one it has.
\<close>

fun steady :: "('h, 'p::linorder) Signal \<Rightarrow> ('h, 'p) SignalCall list \<Rightarrow> bool" where
  "steady s [] = True"
| "steady s (Connect h p # cs) =
     ((case find (\<lambda>it. handler it = h) s of Some it \<Rightarrow> priority it = p | None \<Rightarrow> True)
      \<and> steady (connect h p s) cs)"
| "steady s (Disconnect h # cs) = steady (disconnect h s) cs"

section \<open>Component classes and the component-id registry\<close>

text \<open>
  A component class is a JavaScript constructor: it has an identity, a \<^verbatim>\<open>name\<close> and
  possibly a superclass. Two values of \<open>Class\<close> are the same class exactly when they
  are equal. \<open>instanceOf c k\<close> is \<^verbatim>\<open>x instanceof k\<close> for an object \<^verbatim>\<open>x\<close> whose
  prototype's constructor is \<open>c\<close>: \<open>k\<close> is \<open>c\<close> or one of its ancestors.
\<close>

datatype Class = Class (className: string) (classIdent: nat) (superClass: "Class option")

fun instanceOf :: "Class \<Rightarrow> Class \<Rightarrow> bool" where
  "instanceOf (Class nm i parent) k =
     (Class nm i parent = k \<or> (case parent of None \<Rightarrow> False | Some c \<Rightarrow> instanceOf c k))"

text \<open>
  A tag is a string or a number (\<^verbatim>\<open>isTag\<close>); everything else handed to an entity is
  a component instance, an object known by its reference.
\<close>

type_synonym ref = nat

datatype Tag = TagString string | TagNumber int

datatype ComponentOrTag = IsTag Tag | IsComponent ref

datatype ClassOrTag = TagKey Tag | ClassKey Class

text \<open>
  What the library reads of a component object: the constructor of its prototype, and
  its own property \<^verbatim>\<open>next\<close>. \<open>ownNext\<close> is \<open>None\<close> when the object has no own
  property \<^verbatim>\<open>next\<close>, \<open>Some None\<close> when the property holds \<^verbatim>\<open>undefined\<close> (as the
  constructor of \<^verbatim>\<open>LinkedComponent\<close> leaves it), and \<open>Some (Some r)\<close> when it points
  to the object \<open>r\<close>.
\<close>

record ComponentObj =
  proto :: Class
  ownNext :: "ref option option"

definition isLinkedComponent :: "ComponentObj \<Rightarrow> bool" where
  "isLinkedComponent component = (ownNext component \<noteq> None)"

definition nextOf :: "ComponentObj \<Rightarrow> ref option" where
  "nextOf component = (case ownNext component of None \<Rightarrow> None | Some v \<Rightarrow> v)"

definition getComponentClass :: "ComponentObj \<Rightarrow> Class option \<Rightarrow> error + Class" where
  "getComponentClass component resolveClass =
     (let componentClass = proto component in
      case resolveClass of
        None \<Rightarrow> Inr componentClass
      | Some rc \<Rightarrow>
          if \<not> (instanceOf componentClass rc \<or> componentClass = rc) then Inl ResolveMismatch
          else Inr rc)"

section \<open>The store: registry, objects and entities\<close>

text \<open>
  The handlers that are connected to the signals of entities, queries and the engine.
  \<open>Observer k\<close> is a callback of the library's user; the model takes it to do nothing
  but take note of the call. The others are the engine's three routers and the two
  methods of a query (known by the query's reference) that the engine connects to its
  own signals.
\<close>

datatype Handler =
    Observer nat
  | EngineOnComponentAdded
  | EngineOnComponentRemoved
  | EngineOnInvalidationRequested
  | QueryEntityAdded nat
  | QueryEntityRemoved nat

record Entity =
  onComponentAdded :: "(Handler, Priority) Signal"
  onComponentRemoved :: "(Handler, Priority) Signal"
  onInvalidationRequested :: "(Handler, Priority) Signal"
  components :: "nat \<rightharpoonup> ref"
  linkedComponents :: "nat \<rightharpoonup> nat"
  tags :: "Tag set"

definition newEntityObj :: Entity where
  "newEntityObj = \<lparr>onComponentAdded = [], onComponentRemoved = [], onInvalidationRequested = [],
     components = Map.empty, linkedComponents = Map.empty, tags = {}\<rparr>"

text \<open>
  The arguments of a call that an observer took note of. A query hands its listeners
  its one snapshot object; the note keeps what the listener can read there at that
  moment: the entity \<^verbatim>\<open>current\<close> refers to and the content of \<^verbatim>\<open>previous\<close>.
\<close>

datatype Event =
    ComponentAdded nat ComponentOrTag
  | ComponentRemoved nat ComponentOrTag
  | EntityAdded nat
  | EntityRemoved nat
  | SnapshotAdded nat "nat option" Entity
  | SnapshotRemoved nat "nat option" Entity

text \<open>
  The store holds the module-level variables (\<^verbatim>\<open>componentIds\<close>, \<^verbatim>\<open>componentClassId\<close>,
  \<^verbatim>\<open>entityId\<close>, the static \<^verbatim>\<open>Entity.NumberComponents\<close>) and the objects: component
  instances, \<^verbatim>\<open>LinkedComponentList\<close> objects (their one field \<^verbatim>\<open>_head\<close>) and entities,
  each kind by reference. An entity's reference is its \<^verbatim>\<open>id\<close>. \<open>observed\<close> lists the
  calls the observers received, in order.
\<close>

record Store =
  componentIds :: "string \<rightharpoonup> nat"
  componentClassId :: nat
  NumberComponents :: int
  entityId :: nat
  componentObjs :: "ref \<Rightarrow> ComponentObj"
  listObjs :: "nat \<Rightarrow> ref option"
  listCount :: nat
  entityObjs :: "nat \<Rightarrow> Entity"
  observed :: "(Handler \<times> Event) list"

definition getComponentId ::
    "Class option \<Rightarrow> bool \<Rightarrow> 'a Store_scheme \<Rightarrow> nat option \<times> 'a Store_scheme" where
  "getComponentId component createIfNotExists s =
     (case component of
        None \<Rightarrow> (None, s)
      | Some c \<Rightarrow>
          (case componentIds s (className c) of
             Some i \<Rightarrow> (Some i, s)
           | None \<Rightarrow>
               if createIfNotExists
               then (Some (componentClassId s),
                     s\<lparr>componentIds := (componentIds s)(className c \<mapsto> componentClassId s),
                       componentClassId := componentClassId s + 1\<rparr>)
               else (None, s)))"

definition setEntity :: "nat \<Rightarrow> (Entity \<Rightarrow> Entity) \<Rightarrow> 'a Store_scheme \<Rightarrow> 'a Store_scheme" where
  "setEntity this f s = s\<lparr>entityObjs := (entityObjs s)(this := f (entityObjs s this))\<rparr>"

definition setNext :: "ref \<Rightarrow> ref option \<Rightarrow> 'a Store_scheme \<Rightarrow> 'a Store_scheme" where
  "setNext r v s =
     s\<lparr>componentObjs := (componentObjs s)(r := (componentObjs s r)\<lparr>ownNext := Some v\<rparr>)\<rparr>"

section \<open>LinkedComponentList\<close>

text \<open>
  \<^verbatim>\<open>src/lib/ecs/LinkedComponentList.js\<close>. Both loops walk the \<^verbatim>\<open>next\<close> pointers from
  the head until \<^verbatim>\<open>undefined\<close>; the fuel bounds the number of iterations.
\<close>

fun list_add_loop ::
    "nat \<Rightarrow> (ref \<Rightarrow> ComponentObj) \<Rightarrow> ref \<Rightarrow> ref option \<Rightarrow> ref option \<Rightarrow> (error + ref option) option" where
  "list_add_loop n objs linkedComponent prev None = Some (Inr prev)"
| "list_add_loop 0 objs linkedComponent prev (Some current) = None"
| "list_add_loop (Suc n) objs linkedComponent prev (Some current) =
     (if current = linkedComponent then Some (Inl DuplicateAppend)
      else list_add_loop n objs linkedComponent (Some current) (nextOf (objs current)))"

text \<open>
  After the loop, \<^verbatim>\<open>prev\<close> is defined whenever the head is: the branch \<open>None\<close> of the
  inner case is never taken.
\<close>

definition list_add :: "nat \<Rightarrow> nat \<Rightarrow> ref \<Rightarrow> 'a Store_scheme \<Rightarrow> (unit, 'a Store_scheme) result" where
  "list_add n l linkedComponent s =
     (case list_add_loop n (componentObjs s) linkedComponent None (listObjs s l) of
        None \<Rightarrow> None
      | Some (Inl e) \<Rightarrow> Some (Throw e s)
      | Some (Inr prev) \<Rightarrow>
          if listObjs s l = None
          then Some (Return () (s\<lparr>listObjs := (listObjs s)(l := Some linkedComponent)\<rparr>))
          else (case prev of
                  None \<Rightarrow> Some (Return () s)
                | Some p \<Rightarrow> Some (Return () (setNext p (Some linkedComponent) s))))"

fun list_find ::
    "nat \<Rightarrow> (ref \<Rightarrow> ComponentObj) \<Rightarrow> ref \<Rightarrow> ref option \<Rightarrow> ref option \<Rightarrow> (ref option \<times> ref option) option" where
  "list_find n objs linkedComponent prev None = Some (None, None)"
| "list_find 0 objs linkedComponent prev (Some current) = None"
| "list_find (Suc n) objs linkedComponent prev (Some current) =
     (if current = linkedComponent then Some (prev, Some current)
      else list_find n objs linkedComponent (Some current) (nextOf (objs current)))"

definition list_remove :: "nat \<Rightarrow> nat \<Rightarrow> ref \<Rightarrow> 'a Store_scheme \<Rightarrow> (bool, 'a Store_scheme) result" where
  "list_remove n l linkedComponent s =
     (case list_find n (componentObjs s) linkedComponent None (listObjs s l) of
        None \<Rightarrow> None
      | Some (prev, None) \<Rightarrow> Some (Return False s)
      | Some (None, Some current) \<Rightarrow>
          Some (Return True (s\<lparr>listObjs := (listObjs s)(l := nextOf (componentObjs s current))\<rparr>))
      | Some (Some p, Some current) \<Rightarrow>
          Some (Return True (setNext p (nextOf (componentObjs s current)) s)))"

text \<open>\<^verbatim>\<open>nodes\<close> and \<^verbatim>\<open>iterate\<close>, counting the nodes as \<^verbatim>\<open>Entity.lengthOf\<close> does.\<close>

fun list_count :: "nat \<Rightarrow> (ref \<Rightarrow> ComponentObj) \<Rightarrow> ref option \<Rightarrow> nat \<Rightarrow> nat option" where
  "list_count n objs None result = Some result"
| "list_count 0 objs (Some node) result = None"
| "list_count (Suc n) objs (Some node) result = list_count n objs (nextOf (objs node)) (result + 1)"

section \<open>Entity\<close>

text \<open>
  \<^verbatim>\<open>src/lib/ecs/Entity.js\<close>. Every method takes the entity's reference \<open>this\<close> and
  the store. The methods that emit a signal also take \<open>run\<close>, which says what calling a
  connected handler does, and the fuel \<open>n\<close>.

  \<open>observe\<close> is the handler semantics in which every handler only takes note of the
  call.
\<close>

type_synonym 'a run = "nat \<Rightarrow> Handler \<Rightarrow> Event \<Rightarrow> 'a Store_scheme \<Rightarrow> (unit, 'a Store_scheme) result"

definition observe :: "'a run" where
  "observe n h ev s = Some (Return () (s\<lparr>observed := observed s @ [(h, ev)]\<rparr>))"

definition dispatchOnComponentAdded ::
    "'a run \<Rightarrow> nat \<Rightarrow> nat \<Rightarrow> ComponentOrTag \<Rightarrow> 'a Store_scheme \<Rightarrow> (unit, 'a Store_scheme) result" where
  "dispatchOnComponentAdded run n this component s =
     (if hasHandlers (onComponentAdded (entityObjs s this))
      then emit (\<lambda>h. run n h (ComponentAdded this component)) (onComponentAdded (entityObjs s this)) s
      else Some (Return () s))"

definition dispatchOnComponentRemoved ::
    "'a run \<Rightarrow> nat \<Rightarrow> nat \<Rightarrow> ComponentOrTag \<Rightarrow> 'a Store_scheme \<Rightarrow> (unit, 'a Store_scheme) result" where
  "dispatchOnComponentRemoved run n this val s =
     (if hasHandlers (onComponentRemoved (entityObjs s this))
      then emit (\<lambda>h. run n h (ComponentRemoved this val)) (onComponentRemoved (entityObjs s this)) s
      else Some (Return () s))"

text \<open>
  \<^verbatim>\<open>getComponentId(componentClass, true)\<close> always returns a number; the second branch
  below is never taken.
\<close>

definition componentIdOf :: "Class \<Rightarrow> 'a Store_scheme \<Rightarrow> nat \<times> 'a Store_scheme" where
  "componentIdOf componentClass s =
     (case getComponentId (Some componentClass) True s of
        (Some i, s') \<Rightarrow> (i, s')
      | (None, s') \<Rightarrow> (componentClassId s', s'))"

text \<open>
  \<^verbatim>\<open>getLinkedComponentList(componentClassOrId, createIfNotExists)\<close>. A class is
  resolved to its id first. Every caller that lets the method create the list passes a
  registered id or class, so for an unregistered class only the lookup is modelled: it
  finds nothing.
\<close>

definition getLinkedComponentList ::
    "nat \<Rightarrow> Class + nat \<Rightarrow> bool \<Rightarrow> 'a Store_scheme \<Rightarrow> nat option \<times> 'a Store_scheme" where
  "getLinkedComponentList this componentClassOrId createIfNotExists s =
     (case (case componentClassOrId of
              Inl c \<Rightarrow> fst (getComponentId (Some c) False s)
            | Inr i \<Rightarrow> Some i) of
        None \<Rightarrow> (None, s)
      | Some i \<Rightarrow>
          (case linkedComponents (entityObjs s this) i of
             Some l \<Rightarrow> (Some l, s)
           | None \<Rightarrow>
               if createIfNotExists
               then (Some (listCount s),
                     setEntity this (\<lambda>E. E\<lparr>linkedComponents := (linkedComponents E)(i \<mapsto> listCount s)\<rparr>)
                       (s\<lparr>listObjs := (listObjs s)(listCount s := None), listCount := listCount s + 1\<rparr>))
               else (None, s)))"

definition hasTag :: "nat \<Rightarrow> Tag \<Rightarrow> 'a Store_scheme \<Rightarrow> bool" where
  "hasTag this tag s = (tag \<in> tags (entityObjs s this))"

definition hasComponent :: "nat \<Rightarrow> Class \<Rightarrow> 'a Store_scheme \<Rightarrow> bool" where
  "hasComponent this component s =
     (case fst (getComponentId (Some component) False s) of
        None \<Rightarrow> False
      | Some i \<Rightarrow> components (entityObjs s this) i \<noteq> None)"

definition has :: "nat \<Rightarrow> ClassOrTag \<Rightarrow> 'a Store_scheme \<Rightarrow> bool" where
  "has this componentClassOrTag s =
     (case componentClassOrTag of
        TagKey tag \<Rightarrow> hasTag this tag s
      | ClassKey c \<Rightarrow> hasComponent this c s)"

definition get :: "nat \<Rightarrow> Class \<Rightarrow> 'a Store_scheme \<Rightarrow> ref option" where
  "get this componentClass s =
     (case fst (getComponentId (Some componentClass) False s) of
        None \<Rightarrow> None
      | Some i \<Rightarrow> components (entityObjs s this) i)"

definition addTag :: "'a run \<Rightarrow> nat \<Rightarrow> nat \<Rightarrow> Tag \<Rightarrow> 'a Store_scheme \<Rightarrow> (unit, 'a Store_scheme) result" where
  "addTag run n this tag s =
     (if \<not> hasTag this tag s
      then bind (dispatchOnComponentAdded run n this (IsTag tag)
                   (setEntity this (\<lambda>E. E\<lparr>tags := insert tag (tags E)\<rparr>) s))
             (\<lambda>_ s'. Some (Return () (s'\<lparr>NumberComponents := NumberComponents s' + 1\<rparr>)))
      else Some (Return () s))"

definition removeTag :: "'a run \<Rightarrow> nat \<Rightarrow> nat \<Rightarrow> Tag \<Rightarrow> 'a Store_scheme \<Rightarrow> (unit, 'a Store_scheme) result" where
  "removeTag run n this tag s =
     (if hasTag this tag s
      then dispatchOnComponentRemoved run n this (IsTag tag)
             (setEntity this (\<lambda>E. E\<lparr>tags := tags E - {tag}\<rparr>) s)
      else Some (Return () s))"

definition clear :: "nat \<Rightarrow> 'a Store_scheme \<Rightarrow> 'a Store_scheme" where
  "clear this s =
     setEntity this (\<lambda>E. E\<lparr>components := Map.empty, linkedComponents := Map.empty, tags := {}\<rparr>) s"

text \<open>
  \<^verbatim>\<open>copyFrom\<close> copies the two maps and the tag set; the \<^verbatim>\<open>LinkedComponentList\<close>
  objects and the component instances are shared with the source entity.
\<close>

definition copyFrom :: "nat \<Rightarrow> nat \<Rightarrow> 'a Store_scheme \<Rightarrow> 'a Store_scheme" where
  "copyFrom this entity s =
     setEntity this (\<lambda>E. E\<lparr>components := components (entityObjs s entity),
                            linkedComponents := linkedComponents (entityObjs s entity),
                            tags := tags (entityObjs s entity)\<rparr>) s"

text \<open>
  The part of \<^verbatim>\<open>withdrawComponent\<close> for a linked component, from the lookup of the
  list to the end of the method.
\<close>

definition withdrawLinked ::
    "'a run \<Rightarrow> nat \<Rightarrow> nat \<Rightarrow> ref \<Rightarrow> Class \<Rightarrow> 'a Store_scheme \<Rightarrow> (ref option, 'a Store_scheme) result" where
  "withdrawLinked run n this component componentClass s =
     (case getLinkedComponentList this (Inl componentClass) False s of
        (componentList, s1) \<Rightarrow>
          if \<not> hasComponent this componentClass s1 \<or> componentList = None
          then Some (Return None s1)
          else
            (case componentList of
               None \<Rightarrow> Some (Return None s1)
             | Some l \<Rightarrow>
                 bind (list_remove n l component s1)
                   (\<lambda>found s2.
                      let result = (if found then Some component else None);
                          (componentId, s3) = componentIdOf componentClass s2;
                          s4 = (if listObjs s3 l = None
                                then setEntity this
                                       (\<lambda>E. E\<lparr>components := (components E)(componentId := None),
                                              linkedComponents := (linkedComponents E)(componentId := None)\<rparr>) s3
                                else setEntity this
                                       (\<lambda>E. E\<lparr>components := (components E)(componentId := listObjs s3 l)\<rparr>) s3)
                      in case result of
                           Some r \<Rightarrow>
                             bind (dispatchOnComponentRemoved run n this (IsComponent r) s4)
                               (\<lambda>_ s5. Some (Return (Some r) s5))
                         | None \<Rightarrow> Some (Return None s4))))"

text \<open>The branch of \<^verbatim>\<open>removeComponent\<close> for a component that is not linked.\<close>

definition removePlain ::
    "'a run \<Rightarrow> nat \<Rightarrow> nat \<Rightarrow> nat \<Rightarrow> ref \<Rightarrow> 'a Store_scheme \<Rightarrow> (ref option, 'a Store_scheme) result" where
  "removePlain run n this i val s =
     bind (dispatchOnComponentRemoved run n this (IsComponent val)
             (setEntity this (\<lambda>E. E\<lparr>components := (components E)(i := None)\<rparr>) s))
       (\<lambda>_ s'. Some (Return (Some val) s'))"

text \<open>
  \<^verbatim>\<open>remove\<close>, \<^verbatim>\<open>removeComponent\<close>, \<^verbatim>\<open>withdraw\<close> and \<^verbatim>\<open>withdrawComponent\<close> call each
  other: they are one function here, with the method and its arguments as a \<open>Call\<close>.
  \<open>RemoveLoop\<close> is the loop \<^verbatim>\<open>while (!list.isEmpty) this.withdraw(...)\<close> of
  \<^verbatim>\<open>removeComponent\<close>; each iteration takes one unit of fuel.
\<close>

datatype Call =
    RemoveLoop Class nat
  | Withdraw Class
  | WithdrawComponent ref "Class option"
  | Remove ClassOrTag
  | RemoveComponent Class

fun rank :: "Call \<Rightarrow> nat" where
  "rank (RemoveLoop c l) = 0"
| "rank (RemoveComponent c) = 1"
| "rank (Remove k) = 2"
| "rank (WithdrawComponent r c) = 3"
| "rank (Withdraw c) = 4"

function entityCall ::
    "'a run \<Rightarrow> nat \<Rightarrow> nat \<Rightarrow> Call \<Rightarrow> 'a Store_scheme \<Rightarrow> (ref option, 'a Store_scheme) result" where
  "entityCall run 0 this (RemoveLoop componentClass l) s =
     (if listObjs s l = None then Some (Return None s) else None)"
| "entityCall run (Suc n) this (RemoveLoop componentClass l) s =
     (if listObjs s l = None then Some (Return None s)
      else bind (entityCall run n this (Withdraw componentClass) s)
             (\<lambda>_. entityCall run n this (RemoveLoop componentClass l)))"
| "entityCall run n this (Withdraw componentClass) s =
     (case get this componentClass s of
        Some component \<Rightarrow> entityCall run n this (WithdrawComponent component (Some componentClass)) s
      | None \<Rightarrow> Some (Return None s))"
| "entityCall run n this (WithdrawComponent component resolveClass) s =
     (case getComponentClass (componentObjs s component) resolveClass of
        Inl e \<Rightarrow> Some (Throw e s)
      | Inr componentClass \<Rightarrow>
          if \<not> isLinkedComponent (componentObjs s component)
          then entityCall run n this (Remove (ClassKey componentClass)) s
          else withdrawLinked run n this component componentClass s)"
| "entityCall run n this (Remove (TagKey tag)) s =
     bind (removeTag run n this tag (s\<lparr>NumberComponents := NumberComponents s - 1\<rparr>))
       (\<lambda>_ s'. Some (Return None s'))"
| "entityCall run n this (Remove (ClassKey c)) s =
     entityCall run n this (RemoveComponent c) (s\<lparr>NumberComponents := NumberComponents s - 1\<rparr>)"
| "entityCall run n this (RemoveComponent componentClass) s =
     (case fst (getComponentId (Some componentClass) False s) of
        None \<Rightarrow> Some (Return None s)
      | Some i \<Rightarrow>
          (case components (entityObjs s this) i of
             None \<Rightarrow> Some (Return None s)
           | Some val \<Rightarrow>
               if isLinkedComponent (componentObjs s val)
               then
                 (case getLinkedComponentList this (Inl componentClass) True s of
                    (None, s1) \<Rightarrow> Some (Return (Some val) s1)
                  | (Some l, s1) \<Rightarrow>
                      bind (entityCall run n this (RemoveLoop componentClass l) s1)
                        (\<lambda>_ s2. Some (Return (Some val) s2)))
               else removePlain run n this i val s))"
  by pat_completeness auto
termination
  by (relation "measures [\<lambda>(run, n, this, c, s). n, \<lambda>(run, n, this, c, s). rank c]") auto

definition remove ::
    "'a run \<Rightarrow> nat \<Rightarrow> nat \<Rightarrow> ClassOrTag \<Rightarrow> 'a Store_scheme \<Rightarrow> (ref option, 'a Store_scheme) result" where
  "remove run n this componentClassOrTag s = entityCall run n this (Remove componentClassOrTag) s"

definition removeComponent ::
    "'a run \<Rightarrow> nat \<Rightarrow> nat \<Rightarrow> Class \<Rightarrow> 'a Store_scheme \<Rightarrow> (ref option, 'a Store_scheme) result" where
  "removeComponent run n this componentClass s = entityCall run n this (RemoveComponent componentClass) s"

definition withdraw ::
    "'a run \<Rightarrow> nat \<Rightarrow> nat \<Rightarrow> Class \<Rightarrow> 'a Store_scheme \<Rightarrow> (ref option, 'a Store_scheme) result" where
  "withdraw run n this componentClass s = entityCall run n this (Withdraw componentClass) s"

definition withdrawComponent ::
    "'a run \<Rightarrow> nat \<Rightarrow> nat \<Rightarrow> ref \<Rightarrow> Class option \<Rightarrow> 'a Store_scheme \<Rightarrow> (ref option, 'a Store_scheme) result" where
  "withdrawComponent run n this component resolveClass s =
     entityCall run n this (WithdrawComponent component resolveClass) s"

definition pick ::
    "'a run \<Rightarrow> nat \<Rightarrow> nat \<Rightarrow> ref \<Rightarrow> Class option \<Rightarrow> 'a Store_scheme \<Rightarrow> (ref option, 'a Store_scheme) result" where
  "pick run n this component resolveClass s = withdrawComponent run n this component resolveClass s"

text \<open>
  \<^verbatim>\<open>appendComponent\<close>. The assignment \<^verbatim>\<open>this._components[componentId] =
  componentList.head\<close> stores whatever the head is.
\<close>

definition appendComponent ::
    "'a run \<Rightarrow> nat \<Rightarrow> nat \<Rightarrow> ref \<Rightarrow> Class option \<Rightarrow> 'a Store_scheme \<Rightarrow> (unit, 'a Store_scheme) result" where
  "appendComponent run n this component resolveClass s =
     (case getComponentClass (componentObjs s component) resolveClass of
        Inl e \<Rightarrow> Some (Throw e s)
      | Inr componentClass \<Rightarrow>
          (case componentIdOf componentClass s of
             (componentId, s1) \<Rightarrow>
               (case getLinkedComponentList this (Inr componentId) True s1 of
                  (None, s2) \<Rightarrow> Some (Return () s2)
                | (Some componentList, s2) \<Rightarrow>
                    bind (list_add n componentList component s2)
                      (\<lambda>_ s3.
                         dispatchOnComponentAdded run n this (IsComponent component)
                           (if components (entityObjs s3 this) componentId = None
                            then setEntity this
                                   (\<lambda>E. E\<lparr>components :=
                                            (components E)(componentId := listObjs s3 componentList)\<rparr>) s3
                            else s3)))))"

definition append ::
    "'a run \<Rightarrow> nat \<Rightarrow> nat \<Rightarrow> ref \<Rightarrow> Class option \<Rightarrow> 'a Store_scheme \<Rightarrow> (unit, 'a Store_scheme) result" where
  "append run n this component resolveClass s = appendComponent run n this component resolveClass s"

definition addComponent ::
    "'a run \<Rightarrow> nat \<Rightarrow> nat \<Rightarrow> ref \<Rightarrow> Class option \<Rightarrow> 'a Store_scheme \<Rightarrow> (unit, 'a Store_scheme) result" where
  "addComponent run n this component resolveClass s =
     (case getComponentClass (componentObjs s component) resolveClass of
        Inl e \<Rightarrow> Some (Throw e s)
      | Inr componentClass \<Rightarrow>
          (case componentIdOf componentClass s of
             (i, s1) \<Rightarrow>
               let linkedComponent = isLinkedComponent (componentObjs s1 component) in
               if components (entityObjs s1 this) i \<noteq> None \<and> \<not> linkedComponent
                  \<and> Some component = components (entityObjs s1 this) i
               then Some (Return () s1)
               else
                 bind (if components (entityObjs s1 this) i \<noteq> None
                       then remove run n this (ClassKey componentClass) s1
                       else Some (Return None s1))
                   (\<lambda>_ s2.
                      bind (if linkedComponent
                            then append run n this component resolveClass s2
                            else dispatchOnComponentAdded run n this (IsComponent component)
                                   (setEntity this
                                      (\<lambda>E. E\<lparr>components := (components E)(i \<mapsto> component)\<rparr>) s2))
                        (\<lambda>_ s3. Some (Return () (s3\<lparr>NumberComponents := NumberComponents s3 + 1\<rparr>))))))"

text \<open>
  \<^verbatim>\<open>add(componentOrTag, data, resolveClass)\<close> for a tag or a component instance, with
  the default \<^verbatim>\<open>data = {}\<close>. (Given a class, the method first constructs an instance;
  that case is left out.)
\<close>

definition add ::
    "'a run \<Rightarrow> nat \<Rightarrow> nat \<Rightarrow> ComponentOrTag \<Rightarrow> Class option \<Rightarrow> 'a Store_scheme \<Rightarrow> (unit, 'a Store_scheme) result" where
  "add run n this componentOrTag resolveClass s =
     (case componentOrTag of
        IsTag tag \<Rightarrow> addTag run n this tag s
      | IsComponent component \<Rightarrow> addComponent run n this component resolveClass s)"

text \<open>
  \<^verbatim>\<open>lengthOf\<close> counts the calls of the action in \<^verbatim>\<open>iterate\<close>, which walks the nodes
  of the linked list of the class.
\<close>

definition lengthOf :: "nat \<Rightarrow> nat \<Rightarrow> Class \<Rightarrow> 'a Store_scheme \<Rightarrow> (nat, 'a Store_scheme) result" where
  "lengthOf n this componentClass s =
     (if \<not> hasComponent this componentClass s then Some (Return 0 s)
      else
        (case getLinkedComponentList this (Inl componentClass) True s of
           (None, s1) \<Rightarrow> Some (Return 0 s1)
         | (Some l, s1) \<Rightarrow>
             (case list_count n (componentObjs s1) (listObjs s1 l) 0 of
                None \<Rightarrow> None
              | Some k \<Rightarrow> Some (Return k s1))))"

section \<open>EntitySnapshot\<close>

text \<open>
  An \<^verbatim>\<open>EntitySnapshot\<close> has the fields \<^verbatim>\<open>_current\<close>, a reference to an entity or
  \<^verbatim>\<open>undefined\<close>, and \<^verbatim>\<open>_previous\<close>, an entity of its own.
\<close>

record EntitySnapshot =
  current :: "nat option"
  previous :: nat

definition takeSnapshot ::
    "nat \<Rightarrow> EntitySnapshot \<Rightarrow> ComponentOrTag option \<Rightarrow> Class option \<Rightarrow> 'a Store_scheme
      \<Rightarrow> EntitySnapshot \<times> 'a Store_scheme" where
  "takeSnapshot this result changedComponentOrTag resolveClass s =
     (let previousState = previous result;
          (result1, s1) =
            (if current result \<noteq> Some this
             then (result\<lparr>current := Some this\<rparr>, copyFrom previousState this s)
             else (result, s))
      in case changedComponentOrTag of
           None \<Rightarrow> (result1, s1)
         | Some (IsTag tag) \<Rightarrow>
             (result1,
              if has this (TagKey tag) s1
              then setEntity previousState (\<lambda>E. E\<lparr>tags := tags E - {tag}\<rparr>) s1
              else setEntity previousState (\<lambda>E. E\<lparr>tags := insert tag (tags E)\<rparr>) s1)
         | Some (IsComponent c) \<Rightarrow>
             (let componentClass =
                    (case resolveClass of Some rc \<Rightarrow> rc | None \<Rightarrow> proto (componentObjs s1 c));
                  (componentId, s2) = componentIdOf componentClass s1
              in (result1,
                  if has this (ClassKey componentClass) s2
                  then setEntity previousState
                         (\<lambda>E. E\<lparr>components := (components E)(componentId := None)\<rparr>) s2
                  else setEntity previousState
                         (\<lambda>E. E\<lparr>components := (components E)(componentId \<mapsto> c)\<rparr>) s2)))"

section \<open>Query\<close>

text \<open>
  \<^verbatim>\<open>src/unnamed/part_004\<close> (\<^verbatim>\<open>Query.js\<close>). A predicate is a function of the store
  and the entity it is asked about: it may read everything, and writes nothing.
\<close>

record Query =
  predicate :: "Store \<Rightarrow> nat \<Rightarrow> bool"
  onEntityAdded :: "(Handler, Priority) Signal"
  onEntityRemoved :: "(Handler, Priority) Signal"
  helper :: nat
  snapshot :: EntitySnapshot
  entities :: "nat list"

text \<open>
  The world: the store, the queries (by reference) and the fields of the one engine,
  \<^verbatim>\<open>src/lib/ecs/Engine.d.ts\<close> (which carries \<^verbatim>\<open>Engine.js\<close>). \<^verbatim>\<open>_entityMap\<close> holds
  the same entities as \<^verbatim>\<open>_entities\<close>, keyed by id. Systems, subscriptions and the
  shared configuration entity are left out.
\<close>

record World = Store +
  queryObjs :: "nat \<Rightarrow> Query"
  queryCount :: nat
  engine_entities :: "nat list"
  engine_queries :: "nat list"
  engine_onEntityAdded :: "(Handler, Priority) Signal"
  engine_onEntityRemoved :: "(Handler, Priority) Signal"

definition setQuery :: "nat \<Rightarrow> (Query \<Rightarrow> Query) \<Rightarrow> World \<Rightarrow> World" where
  "setQuery q f w = w\<lparr>queryObjs := (queryObjs w)(q := f (queryObjs w q))\<rparr>"

definition test :: "nat \<Rightarrow> nat \<Rightarrow> World \<Rightarrow> bool" where
  "test q entity w = predicate (queryObjs w q) (Store.truncate w) entity"

definition query_has :: "nat \<Rightarrow> nat \<Rightarrow> World \<Rightarrow> bool" where
  "query_has q entity w = (entity \<in> set (entities (queryObjs w q)))"

text \<open>
  \<^verbatim>\<open>entity.takeSnapshot(this._snapshot, ...)\<close> followed by
  \<^verbatim>\<open>this.onEntityAdded.emit(this._snapshot)\<close>, and the same for
  \<^verbatim>\<open>onEntityRemoved\<close>. The listeners of a query are observers.
\<close>

definition snapshotAndEmit ::
    "bool \<Rightarrow> nat \<Rightarrow> nat \<Rightarrow> nat \<Rightarrow> ComponentOrTag option \<Rightarrow> Class option \<Rightarrow> World \<Rightarrow> (unit, World) result" where
  "snapshotAndEmit added n q entity changed componentClass w =
     (case takeSnapshot entity (snapshot (queryObjs w q)) changed componentClass w of
        (snap, w1) \<Rightarrow>
          (let w2 = setQuery q (\<lambda>Q. Q\<lparr>snapshot := snap\<rparr>) w1 in
           if added
           then emit (\<lambda>h. observe n h
                        (SnapshotAdded q (current snap) (entityObjs w2 (previous snap))))
                  (onEntityAdded (queryObjs w2 q)) w2
           else emit (\<lambda>h. observe n h
                        (SnapshotRemoved q (current snap) (entityObjs w2 (previous snap))))
                  (onEntityRemoved (queryObjs w2 q)) w2))"

definition entityAdded :: "nat \<Rightarrow> nat \<Rightarrow> nat \<Rightarrow> World \<Rightarrow> (unit, World) result" where
  "entityAdded n q entity w =
     (if \<not> query_has q entity w \<and> test q entity w
      then
        (let w1 = setQuery q (\<lambda>Q. Q\<lparr>entities := entities Q @ [entity]\<rparr>) w in
         if hasHandlers (onEntityAdded (queryObjs w1 q))
         then snapshotAndEmit True n q entity None None w1
         else Some (Return () w1))
      else Some (Return () w))"

definition entityRemoved :: "nat \<Rightarrow> nat \<Rightarrow> nat \<Rightarrow> World \<Rightarrow> (unit, World) result" where
  "entityRemoved n q entity w =
     (if query_has q entity w
      then
        (let w1 = setQuery q (\<lambda>Q. Q\<lparr>entities := remove1 entity (entities Q)\<rparr>) w in
         if hasHandlers (onEntityRemoved (queryObjs w1 q))
         then snapshotAndEmit False n q entity None None w1
         else Some (Return () w1))
      else Some (Return () w))"

text \<open>
  \<^verbatim>\<open>updateHelper\<close>. The shadow entity \<^verbatim>\<open>_helper\<close> is private to the query and has no
  handlers of its own.
\<close>

definition updateHelper ::
    "nat \<Rightarrow> nat \<Rightarrow> nat \<Rightarrow> ComponentOrTag \<Rightarrow> Class option \<Rightarrow> World \<Rightarrow> (unit, World) result" where
  "updateHelper n q entity component resolveClass w =
     (let h = helper (queryObjs w q);
          w1 = copyFrom h entity (clear h w)
      in case component of
           IsTag tag \<Rightarrow> add observe n h (IsTag tag) None w1
         | IsComponent c \<Rightarrow>
             if \<not> isLinkedComponent (componentObjs w1 c)
             then add observe n h (IsComponent c) None w1
             else
               (case getComponentClass (componentObjs w1 c) resolveClass of
                  Inl e \<Rightarrow> Some (Throw e w1)
                | Inr componentClass \<Rightarrow>
                    if \<not> has h (ClassKey componentClass) w1
                    then append observe n h c None w1
                    else Some (Return () w1)))"

definition entityComponentAdded ::
    "nat \<Rightarrow> nat \<Rightarrow> nat \<Rightarrow> ComponentOrTag \<Rightarrow> Class option \<Rightarrow> World \<Rightarrow> (unit, World) result" where
  "entityComponentAdded n q entity componentOrTag componentClass w =
     (let hasAddedHandlers = hasHandlers (onEntityAdded (queryObjs w q));
          hasRemovedHandlers = hasHandlers (onEntityRemoved (queryObjs w q))
      in bind (updateHelper n q entity componentOrTag componentClass w)
           (\<lambda>_ w1.
              let isMatch = test q (helper (queryObjs w1 q)) w1 in
              if \<not> query_has q entity w1 \<and> isMatch
              then
                (let w2 = setQuery q (\<lambda>Q. Q\<lparr>entities := entities Q @ [entity]\<rparr>) w1 in
                 if hasAddedHandlers
                 then snapshotAndEmit True n q entity (Some componentOrTag) componentClass w2
                 else Some (Return () w2))
              else if query_has q entity w1 \<and> \<not> isMatch
              then
                (let w2 = setQuery q (\<lambda>Q. Q\<lparr>entities := remove1 entity (entities Q)\<rparr>) w1 in
                 if hasRemovedHandlers
                 then snapshotAndEmit False n q entity (Some componentOrTag) componentClass w2
                 else Some (Return () w2))
              else Some (Return () w1)))"

definition entityComponentRemoved ::
    "nat \<Rightarrow> nat \<Rightarrow> nat \<Rightarrow> ComponentOrTag \<Rightarrow> Class option \<Rightarrow> World \<Rightarrow> (unit, World) result" where
  "entityComponentRemoved n q entity component componentClass w =
     (let hasAddedHandlers = hasHandlers (onEntityAdded (queryObjs w q));
          hasRemovedHandlers = hasHandlers (onEntityRemoved (queryObjs w q))
      in bind (updateHelper n q entity component componentClass w)
           (\<lambda>_ w1.
              if query_has q entity w1 \<and> test q (helper (queryObjs w1 q)) w1 \<and> \<not> test q entity w1
              then
                (let w2 = setQuery q (\<lambda>Q. Q\<lparr>entities := remove1 entity (entities Q)\<rparr>) w1 in
                 if hasRemovedHandlers
                 then snapshotAndEmit False n q entity (Some component) componentClass w2
                 else Some (Return () w2))
              else if \<not> query_has q entity w1 \<and> test q entity w1
                      \<and> \<not> test q (helper (queryObjs w1 q)) w1
              then
                (let w2 = setQuery q (\<lambda>Q. Q\<lparr>entities := entities Q @ [entity]\<rparr>) w1 in
                 if hasAddedHandlers
                 then snapshotAndEmit True n q entity (Some component) componentClass w2
                 else Some (Return () w2))
              else Some (Return () w1)))"

fun forEach :: "('x \<Rightarrow> 's \<Rightarrow> (unit, 's) result) \<Rightarrow> 'x list \<Rightarrow> 's \<Rightarrow> (unit, 's) result" where
  "forEach f [] s = Some (Return () s)"
| "forEach f (x # xs) s = bind (f x s) (\<lambda>_. forEach f xs)"

definition matchEntities :: "nat \<Rightarrow> nat \<Rightarrow> nat list \<Rightarrow> World \<Rightarrow> (unit, World) result" where
  "matchEntities n q es w = forEach (\<lambda>entity. entityAdded n q entity) es w"

section \<open>Engine\<close>

text \<open>
  What calling a handler does in the world. The routers of the engine pass the event on
  to every query of the engine; the entity emits its signals with two arguments, so
  the routers' third parameter \<^verbatim>\<open>componentClass\<close> is \<^verbatim>\<open>undefined\<close>. The methods of a
  query that are connected to the engine's signals update the query. An observer takes
  note of the call. (\<^verbatim>\<open>Entity.invalidate\<close> and \<^verbatim>\<open>validateEntity\<close> are left out; the
  router connected to \<^verbatim>\<open>onInvalidationRequested\<close> is never called.)
\<close>

definition route :: "nat \<Rightarrow> Handler \<Rightarrow> Event \<Rightarrow> World \<Rightarrow> (unit, World) result" where
  "route n h ev w =
     (case (h, ev) of
        (EngineOnComponentAdded, ComponentAdded entity component) \<Rightarrow>
          forEach (\<lambda>q. entityComponentAdded n q entity component None) (engine_queries w) w
      | (EngineOnComponentRemoved, ComponentRemoved entity component) \<Rightarrow>
          forEach (\<lambda>q. entityComponentRemoved n q entity component None) (engine_queries w) w
      | (QueryEntityAdded q, EntityAdded entity) \<Rightarrow> entityAdded n q entity w
      | (QueryEntityRemoved q, EntityRemoved entity) \<Rightarrow> entityRemoved n q entity w
      | (Observer k, _) \<Rightarrow> observe n h ev w
      | _ \<Rightarrow> Some (Return () w))"

definition connectEntity :: "nat \<Rightarrow> World \<Rightarrow> World" where
  "connectEntity entity w =
     setEntity entity
       (\<lambda>E. E\<lparr>onComponentAdded := connect EngineOnComponentAdded PosInfinity (onComponentAdded E),
              onComponentRemoved := connect EngineOnComponentRemoved PosInfinity (onComponentRemoved E),
              onInvalidationRequested :=
                connect EngineOnInvalidationRequested NegInfinity (onInvalidationRequested E)\<rparr>) w"

definition addEntity :: "nat \<Rightarrow> nat \<Rightarrow> World \<Rightarrow> (unit, World) result" where
  "addEntity n entity w =
     (if entity \<in> set (engine_entities w) then Some (Return () w)
      else
        bind (emit (\<lambda>h. route n h (EntityAdded entity)) (engine_onEntityAdded w)
                (w\<lparr>engine_entities := engine_entities w @ [entity]\<rparr>))
          (\<lambda>_ w1. Some (Return () (connectEntity entity w1))))"

definition connectQuery :: "nat \<Rightarrow> World \<Rightarrow> World" where
  "connectQuery q w =
     w\<lparr>engine_onEntityAdded := connect (QueryEntityAdded q) (Finite 0) (engine_onEntityAdded w),
       engine_onEntityRemoved := connect (QueryEntityRemoved q) (Finite 0) (engine_onEntityRemoved w)\<rparr>"

definition addQuery :: "nat \<Rightarrow> nat \<Rightarrow> World \<Rightarrow> (unit, World) result" where
  "addQuery n q w =
     bind (matchEntities n q (engine_entities (connectQuery q w)) (connectQuery q w))
       (\<lambda>_ w1. Some (Return () (w1\<lparr>engine_queries := engine_queries w1 @ [q]\<rparr>)))"

text \<open>
  \<^verbatim>\<open>new Entity()\<close> and \<^verbatim>\<open>new Query(predicate)\<close>; the constructor of a query makes the
  shadow entity and then the snapshot with its entity \<^verbatim>\<open>_previous\<close>.
\<close>

definition newEntity :: "'a Store_scheme \<Rightarrow> nat \<times> 'a Store_scheme" where
  "newEntity s =
     (entityId s, s\<lparr>entityId := entityId s + 1, entityObjs := (entityObjs s)(entityId s := newEntityObj)\<rparr>)"

definition newQuery :: "(Store \<Rightarrow> nat \<Rightarrow> bool) \<Rightarrow> World \<Rightarrow> nat \<times> World" where
  "newQuery p w =
     (case newEntity w of
        (h, w1) \<Rightarrow>
          (case newEntity w1 of
             (pr, w2) \<Rightarrow>
               (queryCount w2,
                w2\<lparr>queryObjs := (queryObjs w2)(queryCount w2 :=
                      \<lparr>predicate = p, onEntityAdded = [], onEntityRemoved = [], helper = h,
                       snapshot = \<lparr>current = None, previous = pr\<rparr>, entities = []\<rparr>),
                   queryCount := queryCount w2 + 1\<rparr>)))"

section \<open>What a snapshot is patched from\<close>

text \<open>
  \<open>snapshotBase this result s\<close> is the entity content that \<^verbatim>\<open>takeSnapshot\<close> patches:
  the content of the entity \<open>this\<close> when the snapshot's \<^verbatim>\<open>current\<close> is not \<open>this\<close> (then
  \<^verbatim>\<open>previous\<close> is first copied from \<open>this\<close>), and otherwise the content that
  \<^verbatim>\<open>previous\<close> already has.
\<close>

definition snapshotBase :: "nat \<Rightarrow> EntitySnapshot \<Rightarrow> 'a Store_scheme \<Rightarrow> Entity" where
  "snapshotBase this result s =
     (if current result \<noteq> Some this then entityObjs s this else entityObjs s (previous result))"

section \<open>Linked lists in the store\<close>

text \<open>
  \<open>chain objs p xs\<close>: following the \<^verbatim>\<open>next\<close> pointers from \<open>p\<close> visits exactly the
  instances \<open>xs\<close>, in this order, and then reaches \<^verbatim>\<open>undefined\<close>.
\<close>

fun chain :: "(ref \<Rightarrow> ComponentObj) \<Rightarrow> ref option \<Rightarrow> ref list \<Rightarrow> bool" where
  "chain objs p [] = (p = None)"
| "chain objs p (x # xs) = (p = Some x \<and> chain objs (nextOf (objs x)) xs)"

text \<open>
  \<open>holdsLinked s this T i l xs\<close>: in the store \<open>s\<close> the class \<open>T\<close> has the id \<open>i\<close>, the
  entity \<open>this\<close> has the list object \<open>l\<close> for that id, the list holds the instances \<open>xs\<close>
  in this order, the entity's slot for the id points at the head of the list, and every
  instance of the list is a linked component (it has its own \<^verbatim>\<open>next\<close>) and an instance
  of \<open>T\<close>.
\<close>

definition holdsLinked :: "'a Store_scheme \<Rightarrow> nat \<Rightarrow> Class \<Rightarrow> nat \<Rightarrow> nat \<Rightarrow> ref list \<Rightarrow> bool" where
  "holdsLinked s this T i l xs =
     (componentIds s (className T) = Some i \<and>
      linkedComponents (entityObjs s this) i = Some l \<and>
      chain (componentObjs s) (listObjs s l) xs \<and>
      components (entityObjs s this) i = listObjs s l \<and>
      (\<forall>x\<in>set xs. isLinkedComponent (componentObjs s x) \<and> instanceOf (proto (componentObjs s x)) T))"

text \<open>
  The store after the head \<open>x\<close> of the list \<open>l\<close> was taken out of the entity \<open>this\<close>: the
  list's head and the entity's slot \<open>i\<close> are the instance after \<open>x\<close>; if there is none,
  the slot is gone and the entity has dropped the list; and every handler of
  \<^verbatim>\<open>onComponentRemoved\<close> was called once, for \<open>x\<close>.
\<close>

definition withdrawn :: "nat \<Rightarrow> nat \<Rightarrow> nat \<Rightarrow> ref \<Rightarrow> 'a Store_scheme \<Rightarrow> 'a Store_scheme" where
  "withdrawn this i l x s =
     s\<lparr>listObjs := (listObjs s)(l := nextOf (componentObjs s x)),
       entityObjs := (entityObjs s)(this := (entityObjs s this)
          \<lparr>components := (components (entityObjs s this))(i := nextOf (componentObjs s x)),
           linkedComponents :=
             (if nextOf (componentObjs s x) = None
              then (linkedComponents (entityObjs s this))(i := None)
              else linkedComponents (entityObjs s this))\<rparr>),
       observed := observed s @
          map (\<lambda>it. (handler it, ComponentRemoved this (IsComponent x)))
            (onComponentRemoved (entityObjs s this))\<rparr>"

text \<open>
  \<open>noLinked s this T\<close>: the entity has neither a slot nor a list for the class \<open>T\<close>
  (if \<open>T\<close> has no id yet: for the id it will get).
\<close>

definition noLinked :: "'a Store_scheme \<Rightarrow> nat \<Rightarrow> Class \<Rightarrow> bool" where
  "noLinked s this T =
     (components (entityObjs s this) (fst (componentIdOf T s)) = None \<and>
      linkedComponents (entityObjs s this) (fst (componentIdOf T s)) = None)"

text \<open>
  \<open>linkedInstances s this T xs\<close>: the instances in the entity's linked list for the class
  \<open>T\<close> are \<open>xs\<close>, in this order; there are none when the entity has no list for \<open>T\<close>.
\<close>

definition linkedInstances :: "'a Store_scheme \<Rightarrow> nat \<Rightarrow> Class \<Rightarrow> ref list \<Rightarrow> bool" where
  "linkedInstances s this T xs =
     (case componentIds s (className T) of
        None \<Rightarrow> linkedComponents (entityObjs s this) (componentClassId s) = None \<and> xs = []
      | Some i \<Rightarrow>
          (case linkedComponents (entityObjs s this) i of
             None \<Rightarrow> xs = []
           | Some l \<Rightarrow> chain (componentObjs s) (listObjs s l) xs))"

text \<open>
  The store after all the instances \<open>xs\<close> of the list \<open>l\<close> were taken out of the entity:
  the list is empty, the entity has neither the slot \<open>i\<close> nor the list, and every handler
  of \<^verbatim>\<open>onComponentRemoved\<close> was called once for each instance, in list order.
\<close>

definition removedAll :: "nat \<Rightarrow> nat \<Rightarrow> nat \<Rightarrow> ref list \<Rightarrow> 'a Store_scheme \<Rightarrow> 'a Store_scheme" where
  "removedAll this i l xs s =
     s\<lparr>listObjs := (listObjs s)(l := None),
       entityObjs := (entityObjs s)(this := (entityObjs s this)
          \<lparr>components := (components (entityObjs s this))(i := None),
           linkedComponents := (linkedComponents (entityObjs s this))(i := None)\<rparr>),
       observed := observed s @
          concat (map (\<lambda>x. map (\<lambda>it. (handler it, ComponentRemoved this (IsComponent x)))
                            (onComponentRemoved (entityObjs s this))) xs)\<rparr>"

section \<open>An example store\<close>

text \<open>
  Two classes, and a store as the module leaves it after loading (no class registered,
  no list made) in which the objects up to reference 9 are plain \<open>Position\<close> instances,
  the objects from reference 10 on are fresh \<open>Damage\<close> instances made by the constructor
  of \<^verbatim>\<open>LinkedComponent\<close> (their own \<^verbatim>\<open>next\<close> is \<^verbatim>\<open>undefined\<close>), and every entity has
  no component, no tag, and the observer 0 connected to \<^verbatim>\<open>onComponentAdded\<close> and to
  \<^verbatim>\<open>onComponentRemoved\<close>.
\<close>

definition Damage :: Class where
  "Damage = Class ''Damage'' 1 None"

definition Position :: Class where
  "Position = Class ''Position'' 2 None"



definition exampleStore :: Store where
  "exampleStore =
     \<lparr>componentIds = Map.empty, componentClassId = 1, NumberComponents = 0, entityId = 1,
      componentObjs = (\<lambda>r. if r < 10 then \<lparr>proto = Position, ownNext = None\<rparr>
                           else \<lparr>proto = Damage, ownNext = Some None\<rparr>),
      listObjs = (\<lambda>l. None), listCount = 0,
      entityObjs = (\<lambda>e. newEntityObj
         \<lparr>onComponentAdded := [\<lparr>handler = Observer 0, priority = Finite 0\<rparr>],
          onComponentRemoved := [\<lparr>handler = Observer 0, priority = Finite 0\<rparr>]\<rparr>),
      observed = []\<rparr>"

section \<open>Reading the observers' notes\<close>

text \<open>
  The component instances for which the observers took note of a call of
  \<^verbatim>\<open>onComponentRemoved\<close>, and of \<^verbatim>\<open>onComponentAdded\<close>, in the order of the calls.
\<close>

definition removedInstances :: "(Handler \<times> Event) list \<Rightarrow> ref list" where
  "removedInstances evs =
     List.map_filter
       (\<lambda>(h, ev). case ev of ComponentRemoved e (IsComponent c) \<Rightarrow> Some c | _ \<Rightarrow> None) evs"

definition addedInstances :: "(Handler \<times> Event) list \<Rightarrow> ref list" where
  "addedInstances evs =
     List.map_filter
       (\<lambda>(h, ev). case ev of ComponentAdded e (IsComponent c) \<Rightarrow> Some c | _ \<Rightarrow> None) evs"

section \<open>An example world\<close>

text \<open>
  The world after \<^verbatim>\<open>q = new Query(p)\<close> (query 0, with the shadow entity 1 and the
  snapshot's entity 2), \<^verbatim>\<open>e = new Entity()\<close> (entity 3), the observer 0 connected to
  both signals of the query, \<^verbatim>\<open>engine.addQuery(q)\<close> and \<^verbatim>\<open>engine.addEntity(e)\<close>, for
  a predicate \<open>p\<close> that an entity without components and tags does not satisfy. The
  component objects are those of the example store.
\<close>

definition exampleWorld :: "(Store \<Rightarrow> nat \<Rightarrow> bool) \<Rightarrow> World" where
  "exampleWorld p =
     \<lparr>componentIds = Map.empty, componentClassId = 1, NumberComponents = 0, entityId = 4,
      componentObjs = (\<lambda>r. if r < 10 then \<lparr>proto = Position, ownNext = None\<rparr>
                           else \<lparr>proto = Damage, ownNext = Some None\<rparr>),
      listObjs = (\<lambda>l. None), listCount = 0,
      entityObjs = (\<lambda>e. if e = 3
         then newEntityObj
           \<lparr>onComponentAdded := [\<lparr>handler = EngineOnComponentAdded, priority = PosInfinity\<rparr>],
            onComponentRemoved := [\<lparr>handler = EngineOnComponentRemoved, priority = PosInfinity\<rparr>],
            onInvalidationRequested :=
              [\<lparr>handler = EngineOnInvalidationRequested, priority = NegInfinity\<rparr>]\<rparr>
         else newEntityObj),
      observed = [],
      queryObjs = (\<lambda>q. \<lparr>predicate = p,
         onEntityAdded = [\<lparr>handler = Observer 0, priority = Finite 0\<rparr>],
         onEntityRemoved = [\<lparr>handler = Observer 0, priority = Finite 0\<rparr>],
         helper = 1, snapshot = \<lparr>current = None, previous = 2\<rparr>, entities = []\<rparr>),
      queryCount = 1, engine_entities = [3], engine_queries = [0],
      engine_onEntityAdded = [\<lparr>handler = QueryEntityAdded 0, priority = Finite 0\<rparr>],
      engine_onEntityRemoved = [\<lparr>handler = QueryEntityRemoved 0, priority = Finite 0\<rparr>]\<rparr>"

text \<open>
  The predicate \<^verbatim>\<open>e => e.lengthOf(Damage) >= 2\<close>. (The lists it walks here have fewer
  than ten instances.)
\<close>

definition atLeastTwoDamages :: "Store \<Rightarrow> nat \<Rightarrow> bool" where
  "atLeastTwoDamages s e =
     (case lengthOf 10 e Damage s of Some (Return k _) \<Rightarrow> 2 \<le> k | _ \<Rightarrow> False)"

text \<open>The predicate \<^verbatim>\<open>e => e.has(Damage)\<close>.\<close>

definition hasDamage :: "Store \<Rightarrow> nat \<Rightarrow> bool" where
  "hasDamage s e = has e (ClassKey Damage) s"

section \<open>Properties\<close>

subsection \<open>Signal: the order of the calls\<close>

lemma find_handler_None: "find (\<lambda>it. handler it = h) s = None \<longleftrightarrow> h \<notin> handler ` set s"
  by (induction s) auto

lemma find_handler_Some: "find (\<lambda>it. handler it = h) s = Some it \<Longrightarrow> it \<in> set s \<and> handler it = h"
  by (induction s) (auto split: if_splits)

lemma setPriority_same:
  "find (\<lambda>it. handler it = h) s = Some it \<Longrightarrow> priority it = p \<Longrightarrow> setPriority h p s = s"
  by (induction s) (auto split: if_splits)

lemma map_handler_setPriority: "map handler (setPriority h p s) = map handler s"
  by (induction s) auto

lemma setPriority_eq_map:
  "distinct (map handler s) \<Longrightarrow>
   setPriority h p s = map (\<lambda>it. if handler it = h then it\<lparr>priority := p\<rparr> else it) s"
proof (induction s)
  case Nil
  then show ?case by simp
next
  case (Cons a s)
  show ?case
  proof (cases "handler a = h")
    case True
    then have "h \<notin> handler ` set s" using Cons.prems by simp
    then have "\<forall>x\<in>set s. handler x \<noteq> h" by blast
    then have "map (\<lambda>it. if handler it = h then it\<lparr>priority := p\<rparr> else it) s = s"
      by (intro map_idI) auto
    then show ?thesis using True by simp
  next
    case False
    then show ?thesis using Cons by simp
  qed
qed

lemma disconnect_eq_filter:
  "distinct (map handler s) \<Longrightarrow> disconnect h s = filter (\<lambda>it. handler it \<noteq> h) s"
proof (induction s)
  case Nil
  then show ?case by simp
next
  case (Cons a s)
  show ?case
  proof (cases "handler a = h")
    case True
    then have "h \<notin> handler ` set s" using Cons.prems by simp
    then have "\<forall>x\<in>set s. handler x \<noteq> h" by blast
    then have "filter (\<lambda>it. handler it \<noteq> h) s = s"
      by (intro filter_True) auto
    then show ?thesis using True by simp
  next
    case False
    then show ?thesis using Cons by simp
  qed
qed

lemma sorted_le_last:
  fixes xs :: "'k::linorder list"
  shows "sorted xs \<Longrightarrow> x \<in> set xs \<Longrightarrow> x \<le> last xs"
  by (induction xs) auto

lemma sort_key_snoc_sorted:
  fixes f :: "'a \<Rightarrow> 'k::linorder"
  shows "sort_key f (sort_key f cs @ [x]) = sort_key f (cs @ [x])"
proof (rule properties_for_sort_key[symmetric])
  show "mset (sort_key f (sort_key f cs @ [x])) = mset (cs @ [x])" by simp
  show "sorted (map f (sort_key f (sort_key f cs @ [x])))" by simp
  fix k assume "k \<in> set (sort_key f (sort_key f cs @ [x]))"
  have "filter (\<lambda>y. f y = f k) (sort_key f (sort_key f cs @ [x])) = filter (\<lambda>y. f y = f k) (cs @ [x])"
    by (simp only: sort_key_stable filter_append)
  then show "filter (\<lambda>y. f k = f y) (sort_key f (sort_key f cs @ [x])) = filter (\<lambda>y. f k = f y) (cs @ [x])"
    by (simp add: eq_commute)
qed

lemma connect_new:
  fixes s :: "('h, 'p::linorder) Signal"
  assumes "s = sort_key priority cs" "h \<notin> handler ` set cs"
  shows "connect h p s = sort_key priority (cs @ [\<lparr>handler = h, priority = p\<rparr>])"
proof -
  let ?x = "\<lparr>handler = h, priority = p\<rparr>"
  have none: "find (\<lambda>it. handler it = h) s = None"
    using assms by (simp add: find_handler_None)
  have eq: "sort_key priority (s @ [?x]) = sort_key priority (cs @ [?x])"
    unfolding assms(1) by (rule sort_key_snoc_sorted)
  show ?thesis
  proof (cases "s \<noteq> [] \<and> priority (last s) > p")
    case True
    then show ?thesis using none eq
      by (simp add: connect_def)
  next
    case False
    have srt: "sorted (map priority s)" using assms(1) by simp
    have "\<forall>q\<in>set (map priority s). q \<le> p"
    proof
      fix q assume q: "q \<in> set (map priority s)"
      then have ne: "s \<noteq> []" by auto
      have "q \<le> last (map priority s)" using srt q by (rule sorted_le_last)
      also have "\<dots> = priority (last s)" using ne by (simp add: last_map)
      also have "\<dots> \<le> p" using False ne by auto
      finally show "q \<le> p" .
    qed
    then have "sorted (map priority (s @ [?x]))"
      using srt by (simp add: sorted_append)
    then have "sort_key priority (s @ [?x]) = s @ [?x]"
      by (rule sort_key_id_if_sorted)
    then show ?thesis using none False eq
      by (simp add: connect_def Let_def)
  qed
qed

lemma calls_snoc: "calls (cs @ [c]) = call c (calls cs)"
  by (simp add: calls_def)

lemma connected_snoc: "connected (cs @ [c]) = connected_step c (connected cs)"
  by (simp add: connected_def)

lemma steady_append: "steady s (cs @ ds) = (steady s cs \<and> steady (fold call cs s) ds)"
  by (induction s cs rule: steady.induct) auto

lemma map_handler_update:
  "map handler (map (\<lambda>it. if handler it = h then it\<lparr>priority := p\<rparr> else it) cs) = map handler cs"
  by (induction cs) auto

lemma distinct_connected_step:
  assumes "distinct (map handler cs)"
  shows "distinct (map handler (connected_step c cs))"
proof (cases c)
  case (Connect h p)
  show ?thesis
  proof (cases "h \<in> handler ` set cs")
    case True
    then have "map handler (connected_step c cs) = map handler cs"
      using Connect by (simp only: connected_step.simps if_True map_handler_update)
    then show ?thesis using assms by simp
  next
    case False
    then show ?thesis using Connect assms by auto
  qed
next
  case (Disconnect h)
  then show ?thesis using assms by (simp add: distinct_map_filter)
qed

lemma distinct_connected: "distinct (map handler (connected cs))"
  by (induction cs rule: rev_induct) (simp_all add: connected_def distinct_connected_step)

lemma mset_calls:
  fixes cs :: "('h, 'p::linorder) SignalCall list"
  shows "mset (calls cs) = mset (connected cs)"
proof (induction cs rule: rev_induct)
  case Nil
  show ?case by (simp add: calls_def connected_def)
next
  case (snoc c cs)
  have d: "distinct (map handler (connected cs))" by (rule distinct_connected)
  have "mset (map handler (calls cs)) = mset (map handler (connected cs))"
    using snoc by (metis mset_map)
  then have d': "distinct (map handler (calls cs))"
    using d by (metis mset_eq_imp_distinct_iff)
  have sets: "set (calls cs) = set (connected cs)" using snoc by (metis mset_eq_setD)
  show ?case
  proof (cases c)
    case (Connect h p)
    show ?thesis
    proof (cases "find (\<lambda>it. handler it = h) (calls cs)")
      case None
      then have "h \<notin> handler ` set (connected cs)" using sets by (simp add: find_handler_None)
      then show ?thesis using None Connect snoc
        by (simp add: calls_snoc connected_snoc connect_def Let_def)
    next
      case (Some it)
      then have "h \<in> handler ` set (connected cs)"
        using sets find_handler_Some[OF Some] by auto
      then show ?thesis using Some Connect snoc d d'
        by (simp add: calls_snoc connected_snoc connect_def Let_def setPriority_eq_map)
    qed
  next
    case (Disconnect h)
    then show ?thesis using snoc d'
      by (simp add: calls_snoc connected_snoc disconnect_eq_filter)
  qed
qed

lemma sorted_connect:
  fixes s :: "('h, 'p::linorder) Signal"
  assumes "sorted (map priority s)"
  shows "sorted (map priority (connect h p s))"
proof (cases "find (\<lambda>it. handler it = h) s")
  case None
  show ?thesis
  proof (cases "s \<noteq> [] \<and> priority (last s) > p")
    case True
    then show ?thesis using None by (simp add: connect_def)
  next
    case False
    have "\<forall>q\<in>set (map priority s). q \<le> p"
    proof
      fix q assume q: "q \<in> set (map priority s)"
      then have ne: "s \<noteq> []" by auto
      have "q \<le> last (map priority s)" using assms q by (rule sorted_le_last)
      also have "\<dots> = priority (last s)" using ne by (simp add: last_map)
      also have "\<dots> \<le> p" using False ne by auto
      finally show "q \<le> p" .
    qed
    then show ?thesis using None False assms
      by (simp add: connect_def Let_def sorted_append)
  qed
next
  case (Some it)
  show ?thesis
  proof (cases "priority it = p")
    case True
    then show ?thesis using Some assms by (simp add: connect_def setPriority_same)
  next
    case False
    then show ?thesis using Some by (simp add: connect_def)
  qed
qed

lemma set_disconnect: "set (disconnect h s) \<subseteq> set s"
  by (induction s) auto

lemma sorted_disconnect:
  fixes s :: "('h, 'p::linorder) Signal"
  shows "sorted (map priority s) \<Longrightarrow> sorted (map priority (disconnect h s))"
  using set_disconnect[of h] by (induction s) auto

lemma sorted_calls:
  fixes cs :: "('h, 'p::linorder) SignalCall list"
  shows "sorted (map priority (calls cs))"
proof (induction cs rule: rev_induct)
  case Nil
  show ?case by (simp add: calls_def)
next
  case (snoc c cs)
  then show ?case
    by (cases c) (simp_all add: calls_snoc sorted_connect sorted_disconnect)
qed

lemma steady_calls:
  fixes cs :: "('h, 'p::linorder) SignalCall list"
  shows "steady [] cs \<Longrightarrow> calls cs = sort_key priority (connected cs)"
proof (induction cs rule: rev_induct)
  case Nil
  show ?case by (simp add: calls_def connected_def)
next
  case (snoc c cs)
  from snoc.prems have st: "steady [] cs" and last: "steady (calls cs) [c]"
    by (simp_all add: steady_append calls_def)
  have IH: "calls cs = sort_key priority (connected cs)" using snoc.IH st by simp
  have d: "distinct (map handler (connected cs))" by (rule distinct_connected)
  have sets: "set (calls cs) = set (connected cs)" using IH by simp
  have "mset (map handler (calls cs)) = mset (map handler (connected cs))"
    using IH by simp
  then have d': "distinct (map handler (calls cs))"
    using d by (metis mset_eq_imp_distinct_iff)
  show ?case
  proof (cases c)
    case (Connect h p)
    show ?thesis
    proof (cases "find (\<lambda>it. handler it = h) (calls cs)")
      case None
      then have nin: "h \<notin> handler ` set (connected cs)" using sets by (simp add: find_handler_None)
      show ?thesis using connect_new[OF IH nin, of p] nin Connect
        by (simp add: calls_snoc connected_snoc)
    next
      case (Some it)
      then have pr: "priority it = p" using last Connect by simp
      have isin: "h \<in> handler ` set (connected cs)"
        using sets find_handler_Some[OF Some] by auto
      have "\<forall>x\<in>set (connected cs). handler x = h \<longrightarrow> priority x = p"
      proof (intro ballI impI)
        fix x assume x: "x \<in> set (connected cs)" "handler x = h"
        then have "x \<in> set (calls cs)" using sets by simp
        moreover have "it \<in> set (calls cs)" "handler it = h" using find_handler_Some[OF Some] by auto
        ultimately have "x = it" using d' x(2) by (meson distinct_map inj_onD)
        then show "priority x = p" using pr by simp
      qed
      then have "map (\<lambda>it. if handler it = h then it\<lparr>priority := p\<rparr> else it) (connected cs) = connected cs"
        by (intro map_idI) auto
      then show ?thesis using Some pr Connect IH isin
        by (simp add: calls_snoc connected_snoc connect_def setPriority_same)
    qed
  next
    case (Disconnect h)
    then show ?thesis using d' IH
      by (simp add: calls_snoc connected_snoc disconnect_eq_filter filter_sort)
  qed
qed

lemma emit_record: "emit record_call s tr = Some (Return () (tr @ map handler s))"
  by (induction s arbitrary: tr) (simp_all add: bind_def record_call_def)

text \<open>
  Claim C6, as the code has it. For every sequence of \<^verbatim>\<open>connect\<close> and
  \<^verbatim>\<open>disconnect\<close> calls on a fresh signal, the handler array is sorted by ascending
  priority and holds exactly the handlers that are connected, each with its latest
  priority. If the sequence is steady (no \<^verbatim>\<open>connect\<close> changes the priority of a
  handler that is connected), \<^verbatim>\<open>emit\<close> calls the connected handlers in ascending
  priority, ties in connection order.
\<close>

theorem signal_emit_order:
  fixes cs :: "('h, 'p::linorder) SignalCall list"
  shows "sorted (map priority (calls cs)) \<and> mset (calls cs) = mset (connected cs) \<and>
         emit record_call (calls cs) [] = Some (Return () (map handler (calls cs))) \<and>
         (steady [] cs \<longrightarrow>
            emit record_call (calls cs) [] = Some (Return () (expected_order (connected cs))))"
proof (intro conjI impI)
  show "sorted (map priority (calls cs))" by (rule sorted_calls)
  show "mset (calls cs) = mset (connected cs)" by (rule mset_calls)
  show "emit record_call (calls cs) [] = Some (Return () (map handler (calls cs)))"
    by (simp add: emit_record)
  assume "steady [] cs"
  then show "emit record_call (calls cs) [] = Some (Return () (expected_order (connected cs)))"
    by (simp add: emit_record steady_calls expected_order_def)
qed

text \<open>
  The scenario of the specification: handlers 1, 2 and 3 connected with the priorities
  5, 1 and 5 are called in the order 2, 1, 3.
\<close>

theorem signal_emit_order_witness:
  "steady [] [Connect (1::nat) (Finite 5), Connect 2 (Finite 1), Connect 3 (Finite 5)] \<and>
   emit record_call (calls [Connect (1::nat) (Finite 5), Connect 2 (Finite 1), Connect 3 (Finite 5)]) []
     = Some (Return () [2, 1, 3])"
proof -
  let ?cs = "[Connect (1::nat) (Finite 5), Connect 2 (Finite 1), Connect 3 (Finite 5)]"
  have st: "steady [] ?cs"
    by (simp add: connect_def less_Priority_def)
  have ex: "expected_order (connected ?cs) = [2, 1, 3]"
    by (simp add: expected_order_def connected_def)
  from signal_emit_order[of ?cs] st
  have "emit record_call (calls ?cs) [] = Some (Return () (expected_order (connected ?cs)))"
    by blast
  then have "emit record_call (calls ?cs) [] = Some (Return () [2, 1, 3])"
    by (simp only: ex)
  with st show ?thesis by blast
qed

text \<open>
  Claim C6 as stated fails when a connected handler is connected again with another
  priority. Handler 1 is connected with priority 5, then handler 2 with priority 1,
  then handler 2 again with priority 5. Both handlers now have priority 5 and handler 1
  was connected first, whichever connection of handler 2 counts; but \<^verbatim>\<open>emit\<close> calls
  handler 2 first.
\<close>

theorem signal_emit_order_counterexample:
  "emit record_call (calls [Connect (1::nat) (Finite 5), Connect 2 (Finite 1), Connect 2 (Finite 5)]) []
     = Some (Return () [2, 1]) \<and>
   expected_order (connected [Connect (1::nat) (Finite 5), Connect 2 (Finite 1), Connect 2 (Finite 5)])
     = [1, 2] \<and>
   expected_order (connected_latest [Connect (1::nat) (Finite 5), Connect 2 (Finite 1), Connect 2 (Finite 5)])
     = [1, 2]"
  by (simp add: bind_def record_call_def calls_def connect_def less_Priority_def
      expected_order_def connected_def connected_latest_def)

subsection \<open>Outcomes, registry and dispatch\<close>

lemma bind_Return [simp]: "bind (Some (Return v s)) f = f v s"
  by (simp add: bind_def)

lemma bind_Throw [simp]: "bind (Some (Throw e s)) f = Some (Throw e s)"
  by (simp add: bind_def)

lemma bind_None [simp]: "bind None f = None"
  by (simp add: bind_def)

lemma fun_upd_eq_same [simp]: "(f(a := x) = f(a := y)) = (x = y)"
  by (metis fun_upd_same)

lemma getComponentId_lookup:
  "getComponentId (Some c) False s = (componentIds s (className c), s)"
  by (simp add: getComponentId_def split: option.splits)

lemma getComponentId_registered:
  "componentIds s (className c) = Some i \<Longrightarrow> getComponentId (Some c) create s = (Some i, s)"
  by (simp add: getComponentId_def)

lemma componentIdOf_registered:
  "componentIds s (className c) = Some i \<Longrightarrow> componentIdOf c s = (i, s)"
  by (simp add: componentIdOf_def getComponentId_def)

lemma componentIdOf_fresh:
  "componentIds s (className c) = None \<Longrightarrow>
   componentIdOf c s =
     (componentClassId s,
      s\<lparr>componentIds := (componentIds s)(className c \<mapsto> componentClassId s),
        componentClassId := componentClassId s + 1\<rparr>)"
  by (simp add: componentIdOf_def getComponentId_def)

lemma setEntity_frame [simp]:
  "componentIds (setEntity e f s) = componentIds s"
  "componentClassId (setEntity e f s) = componentClassId s"
  "NumberComponents (setEntity e f s) = NumberComponents s"
  "entityId (setEntity e f s) = entityId s"
  "componentObjs (setEntity e f s) = componentObjs s"
  "listObjs (setEntity e f s) = listObjs s"
  "listCount (setEntity e f s) = listCount s"
  "observed (setEntity e f s) = observed s"
  "entityObjs (setEntity e f s) = (entityObjs s)(e := f (entityObjs s e))"
  by (simp_all add: setEntity_def)

lemma copyFrom_frame [simp]:
  "componentIds (copyFrom a b s) = componentIds s"
  "componentClassId (copyFrom a b s) = componentClassId s"
  "NumberComponents (copyFrom a b s) = NumberComponents s"
  "entityId (copyFrom a b s) = entityId s"
  "componentObjs (copyFrom a b s) = componentObjs s"
  "listObjs (copyFrom a b s) = listObjs s"
  "listCount (copyFrom a b s) = listCount s"
  "observed (copyFrom a b s) = observed s"
  by (simp_all add: copyFrom_def)

lemma clear_frame [simp]:
  "componentIds (clear a s) = componentIds s"
  "componentClassId (clear a s) = componentClassId s"
  "NumberComponents (clear a s) = NumberComponents s"
  "entityId (clear a s) = entityId s"
  "componentObjs (clear a s) = componentObjs s"
  "listObjs (clear a s) = listObjs s"
  "listCount (clear a s) = listCount s"
  "observed (clear a s) = observed s"
  by (simp_all add: clear_def)

lemma componentIdOf_frame [simp]:
  "componentObjs (snd (componentIdOf T s)) = componentObjs s"
  "listObjs (snd (componentIdOf T s)) = listObjs s"
  "listCount (snd (componentIdOf T s)) = listCount s"
  "entityObjs (snd (componentIdOf T s)) = entityObjs s"
  "observed (snd (componentIdOf T s)) = observed s"
  "NumberComponents (snd (componentIdOf T s)) = NumberComponents s"
  "entityId (snd (componentIdOf T s)) = entityId s"
  by (simp_all add: componentIdOf_def getComponentId_def split: option.splits)

lemma componentIdOf_registers:
  "componentIds (snd (componentIdOf T s)) (className T) = Some (fst (componentIdOf T s))"
  by (simp add: componentIdOf_def getComponentId_def split: option.splits)

lemma emit_observe:
  "emit (\<lambda>h. observe n h ev) hs s =
     Some (Return () (s\<lparr>observed := observed s @ map (\<lambda>it. (handler it, ev)) hs\<rparr>))"
  by (induction hs arbitrary: s) (simp_all add: observe_def)

lemma dispatchOnComponentRemoved_observe:
  "dispatchOnComponentRemoved observe n this v s =
     Some (Return () (s\<lparr>observed := observed s @
        map (\<lambda>it. (handler it, ComponentRemoved this v)) (onComponentRemoved (entityObjs s this))\<rparr>))"
  by (simp add: dispatchOnComponentRemoved_def emit_observe hasHandlers_def)

lemma dispatchOnComponentAdded_observe:
  "dispatchOnComponentAdded observe n this v s =
     Some (Return () (s\<lparr>observed := observed s @
        map (\<lambda>it. (handler it, ComponentAdded this v)) (onComponentAdded (entityObjs s this))\<rparr>))"
  by (simp add: dispatchOnComponentAdded_def emit_observe hasHandlers_def)

subsection \<open>Chains\<close>

lemma chain_functional: "chain objs p xs \<Longrightarrow> chain objs p ys \<Longrightarrow> xs = ys"
proof (induction xs arbitrary: p ys)
  case Nil
  then show ?case by (cases ys) auto
next
  case (Cons x xs)
  then show ?case by (cases ys) auto
qed

lemma chain_suffix: "chain objs p (as @ x # bs) \<Longrightarrow> chain objs (Some x) (x # bs)"
  by (induction as arbitrary: p) auto

lemma chain_distinct: "chain objs p xs \<Longrightarrow> distinct xs"
proof (induction xs arbitrary: p)
  case Nil
  then show ?case by simp
next
  case (Cons x xs)
  have "x \<notin> set xs"
  proof
    assume "x \<in> set xs"
    then obtain as bs where xs: "xs = as @ x # bs" by (auto simp: in_set_conv_decomp)
    from Cons.prems have c1: "chain objs (Some x) (x # xs)" by simp
    from Cons.prems xs have "chain objs (nextOf (objs x)) (as @ x # bs)" by simp
    then have "chain objs (Some x) (x # bs)" by (rule chain_suffix)
    with c1 have "x # xs = x # bs" by (rule chain_functional)
    with xs show False by simp
  qed
  moreover from Cons have "distinct xs" by auto
  ultimately show ?case by simp
qed

lemma chain_head: "chain objs p (x # xs) \<Longrightarrow> p = Some x"
  by simp

lemma chain_next:
  "chain objs p (x # xs) \<Longrightarrow> nextOf (objs x) = (case xs of [] \<Rightarrow> None | y # _ \<Rightarrow> Some y)"
  by (cases xs) auto

lemma chain_update_other:
  "r \<notin> set xs \<Longrightarrow> chain (objs(r := v)) p xs = chain objs p xs"
  by (induction xs arbitrary: p) auto

subsection \<open>The loops of LinkedComponentList\<close>

lemma list_add_loop_duplicate:
  "chain objs p xs \<Longrightarrow> c \<in> set xs \<Longrightarrow> length xs \<le> n \<Longrightarrow>
   list_add_loop n objs c prev p = Some (Inl DuplicateAppend)"
proof (induction xs arbitrary: p prev n)
  case Nil
  then show ?case by simp
next
  case (Cons x xs)
  then obtain m where n: "n = Suc m" by (cases n) auto
  show ?case
  proof (cases "x = c")
    case True
    then show ?thesis using Cons.prems n by simp
  next
    case False
    then show ?thesis using Cons n by simp
  qed
qed

lemma list_add_loop_new:
  "chain objs p xs \<Longrightarrow> c \<notin> set xs \<Longrightarrow> length xs \<le> n \<Longrightarrow>
   list_add_loop n objs c prev p = Some (Inr (if xs = [] then prev else Some (last xs)))"
proof (induction xs arbitrary: p prev n)
  case Nil
  then show ?case by simp
next
  case (Cons x xs)
  then obtain m where n: "n = Suc m" by (cases n) auto
  show ?case using Cons n by auto
qed

lemma list_find_head:
  "0 < n \<Longrightarrow> list_find n objs x prev (Some x) = Some (prev, Some x)"
  by (cases n) simp_all

lemma list_count_chain:
  "chain objs p xs \<Longrightarrow> length xs \<le> n \<Longrightarrow> list_count n objs p k = Some (k + length xs)"
proof (induction xs arbitrary: p n k)
  case Nil
  then show ?case by simp
next
  case (Cons x xs)
  then obtain m where n: "n = Suc m" by (cases n) auto
  show ?case using Cons n by auto
qed

subsection \<open>The methods of Entity that call each other\<close>

lemma removeLoop_0:
  "entityCall run 0 this (RemoveLoop T l) s =
     (if listObjs s l = None then Some (Return None s) else None)"
  by simp

lemma removeLoop_Suc:
  "entityCall run (Suc n) this (RemoveLoop T l) s =
     (if listObjs s l = None then Some (Return None s)
      else bind (withdraw run n this T s) (\<lambda>_. entityCall run n this (RemoveLoop T l)))"
  by (simp add: withdraw_def)

lemma withdraw_unfold:
  "withdraw run n this T s =
     (case get this T s of
        Some component \<Rightarrow> withdrawComponent run n this component (Some T) s
      | None \<Rightarrow> Some (Return None s))"
  by (simp add: withdraw_def withdrawComponent_def split: option.splits)

lemma withdrawComponent_unfold:
  "withdrawComponent run n this component resolveClass s =
     (case getComponentClass (componentObjs s component) resolveClass of
        Inl e \<Rightarrow> Some (Throw e s)
      | Inr componentClass \<Rightarrow>
          if \<not> isLinkedComponent (componentObjs s component)
          then remove run n this (ClassKey componentClass) s
          else withdrawLinked run n this component componentClass s)"
  by (simp add: withdrawComponent_def remove_def split: sum.splits)

lemma remove_tag_unfold:
  "remove run n this (TagKey tag) s =
     bind (removeTag run n this tag (s\<lparr>NumberComponents := NumberComponents s - 1\<rparr>))
       (\<lambda>_ s'. Some (Return None s'))"
  by (simp add: remove_def)

lemma remove_class_unfold:
  "remove run n this (ClassKey c) s =
     removeComponent run n this c (s\<lparr>NumberComponents := NumberComponents s - 1\<rparr>)"
  by (simp add: remove_def removeComponent_def)

lemma removeComponent_unfold:
  "removeComponent run n this componentClass s =
     (case fst (getComponentId (Some componentClass) False s) of
        None \<Rightarrow> Some (Return None s)
      | Some i \<Rightarrow>
          (case components (entityObjs s this) i of
             None \<Rightarrow> Some (Return None s)
           | Some val \<Rightarrow>
               if isLinkedComponent (componentObjs s val)
               then
                 (case getLinkedComponentList this (Inl componentClass) True s of
                    (None, s1) \<Rightarrow> Some (Return (Some val) s1)
                  | (Some l, s1) \<Rightarrow>
                      bind (entityCall run n this (RemoveLoop componentClass l) s1)
                        (\<lambda>_ s2. Some (Return (Some val) s2)))
               else removePlain run n this i val s))"
  by (simp add: removeComponent_def)

declare entityCall.simps [simp del]

subsection \<open>Taking the head out of a linked list\<close>

lemma holdsLinked_get:
  "holdsLinked s this T i l (x # xs) \<Longrightarrow> get this T s = Some x"
  by (simp add: holdsLinked_def get_def getComponentId_lookup)

lemma holdsLinked_class:
  "holdsLinked s this T i l xs \<Longrightarrow> x \<in> set xs \<Longrightarrow>
   getComponentClass (componentObjs s x) (Some T) = Inr T"
  by (simp add: holdsLinked_def getComponentClass_def)

lemma list_remove_head:
  "listObjs s l = Some x \<Longrightarrow> 0 < n \<Longrightarrow>
   list_remove n l x s = Some (Return True (s\<lparr>listObjs := (listObjs s)(l := nextOf (componentObjs s x))\<rparr>))"
  by (simp add: list_remove_def list_find_head)

lemma withdrawLinked_head:
  assumes "holdsLinked s this T i l (x # xs)" "0 < n"
  shows "withdrawLinked observe n this x T s = Some (Return (Some x) (withdrawn this i l x s))"
proof -
  from assms(1) have reg: "componentIds s (className T) = Some i"
    and lst: "linkedComponents (entityObjs s this) i = Some l"
    and hd: "listObjs s l = Some x"
    and slot: "components (entityObjs s this) i = Some x"
    by (simp_all add: holdsLinked_def)
  have g: "getLinkedComponentList this (Inl T) False s = (Some l, s)"
    using reg lst by (simp add: getLinkedComponentList_def getComponentId_lookup)
  have h: "hasComponent this T s"
    using reg slot by (simp add: hasComponent_def getComponentId_lookup)
  let ?s2 = "s\<lparr>listObjs := (listObjs s)(l := nextOf (componentObjs s x))\<rparr>"
  have r: "list_remove n l x s = Some (Return True ?s2)"
    using hd assms(2) by (rule list_remove_head)
  have c: "componentIdOf T ?s2 = (i, ?s2)"
    using reg by (simp add: componentIdOf_registered)
  show ?thesis
    unfolding withdrawLinked_def
    by (simp add: g h r c dispatchOnComponentRemoved_observe setEntity_def withdrawn_def Let_def)
qed

lemma withdraw_head:
  assumes "holdsLinked s this T i l (x # xs)" "0 < n"
  shows "withdraw observe n this T s = Some (Return (Some x) (withdrawn this i l x s))"
proof -
  have "isLinkedComponent (componentObjs s x)"
    using assms(1) by (simp add: holdsLinked_def)
  then show ?thesis
    using holdsLinked_get[OF assms(1)] holdsLinked_class[OF assms(1), of x]
      withdrawLinked_head[OF assms]
    by (simp add: withdraw_unfold withdrawComponent_unfold)
qed

lemma withdraw_absent:
  "get this T s = None \<Longrightarrow> withdraw run n this T s = Some (Return None s)"
  by (simp add: withdraw_unfold)

lemma withdrawn_chain:
  "holdsLinked s this T i l (x # xs) \<Longrightarrow>
   chain (componentObjs (withdrawn this i l x s)) (listObjs (withdrawn this i l x s) l) xs"
  by (simp add: holdsLinked_def withdrawn_def)

lemma withdrawn_holdsLinked:
  "holdsLinked s this T i l (x # y # ys) \<Longrightarrow> holdsLinked (withdrawn this i l x s) this T i l (y # ys)"
  by (simp add: holdsLinked_def withdrawn_def)

lemma withdrawn_last:
  "holdsLinked s this T i l [x] \<Longrightarrow>
   listObjs (withdrawn this i l x s) l = None \<and>
   components (entityObjs (withdrawn this i l x s) this) i = None \<and>
   linkedComponents (entityObjs (withdrawn this i l x s) this) i = None"
  by (simp add: holdsLinked_def withdrawn_def)

subsection \<open>Removing every instance of a linked list\<close>

lemma removeLoop_empty:
  "listObjs s l = None \<Longrightarrow> entityCall run n this (RemoveLoop T l) s = Some (Return None s)"
  by (cases n) (simp_all add: removeLoop_0 removeLoop_Suc)

lemma removeLoop_all:
  "holdsLinked s this T i l xs \<Longrightarrow> xs \<noteq> [] \<Longrightarrow> length xs < n \<Longrightarrow>
   entityCall observe n this (RemoveLoop T l) s = Some (Return None (fold (withdrawn this i l) xs s))"
proof (induction xs arbitrary: s n)
  case Nil
  then show ?case by simp
next
  case (Cons x xs)
  note IH = Cons.IH and holds = Cons.prems(1)
  from Cons.prems obtain m where n: "n = Suc m" and m: "length xs < m" by (cases n) auto
  have hd: "listObjs s l = Some x" using holds by (simp add: holdsLinked_def)
  have w: "withdraw observe m this T s = Some (Return (Some x) (withdrawn this i l x s))"
    using holds m by (intro withdraw_head) auto
  show ?case
  proof (cases "xs = []")
    case True
    then have "listObjs (withdrawn this i l x s) l = None"
      using withdrawn_last[of s this T i l x] holds by simp
    then show ?thesis
      using n hd w True by (simp add: removeLoop_Suc removeLoop_empty)
  next
    case False
    then obtain y ys where xs: "xs = y # ys" by (cases xs) auto
    then have "holdsLinked (withdrawn this i l x s) this T i l xs"
      using withdrawn_holdsLinked[of s this T i l x y ys] holds by simp
    then have "entityCall observe m this (RemoveLoop T l) (withdrawn this i l x s)
        = Some (Return None (fold (withdrawn this i l) xs (withdrawn this i l x s)))"
      using IH[of "withdrawn this i l x s" m] m False by simp
    then show ?thesis
      using n hd w by (simp add: removeLoop_Suc)
  qed
qed

lemma removedAll_single:
  "nextOf (componentObjs s x) = None \<Longrightarrow> withdrawn this i l x s = removedAll this i l [x] s"
  by (simp add: withdrawn_def removedAll_def)

lemma removedAll_step:
  "nextOf (componentObjs s x) \<noteq> None \<Longrightarrow>
   removedAll this i l xs (withdrawn this i l x s) = removedAll this i l (x # xs) s"
  by (simp add: withdrawn_def removedAll_def)

lemma fold_withdrawn:
  "holdsLinked s this T i l xs \<Longrightarrow> xs \<noteq> [] \<Longrightarrow>
   fold (withdrawn this i l) xs s = removedAll this i l xs s"
proof (induction xs arbitrary: s)
  case Nil
  then show ?case by simp
next
  case (Cons x xs)
  note IH = Cons.IH and holds = Cons.prems(1)
  show ?case
  proof (cases "xs = []")
    case True
    then have "nextOf (componentObjs s x) = None"
      using holds by (simp add: holdsLinked_def)
    then show ?thesis using True by (simp add: removedAll_single)
  next
    case False
    then obtain y ys where xs: "xs = y # ys" by (cases xs) auto
    then have h: "holdsLinked (withdrawn this i l x s) this T i l xs"
      using withdrawn_holdsLinked[of s this T i l x y ys] holds by simp
    have nx: "nextOf (componentObjs s x) \<noteq> None"
      using holds xs by (simp add: holdsLinked_def)
    show ?thesis
      using IH[OF h False] removedAll_step[OF nx, of this i l xs] by simp
  qed
qed

lemma holdsLinked_NumberComponents:
  "holdsLinked (s\<lparr>NumberComponents := k\<rparr>) this T i l xs = holdsLinked s this T i l xs"
  by (simp add: holdsLinked_def)

lemma remove_linked:
  assumes "holdsLinked s this T i l xs" "xs \<noteq> []" "length xs < n"
  shows "remove observe n this (ClassKey T) s =
     Some (Return (Some (hd xs))
       (removedAll this i l xs (s\<lparr>NumberComponents := NumberComponents s - 1\<rparr>)))"
proof -
  let ?s = "s\<lparr>NumberComponents := NumberComponents s - 1\<rparr>"
  have h: "holdsLinked ?s this T i l xs"
    using assms(1) by (simp add: holdsLinked_NumberComponents)
  obtain x ys where xs: "xs = x # ys" using assms(2) by (cases xs) auto
  from h xs have reg: "componentIds ?s (className T) = Some i"
    and lst: "linkedComponents (entityObjs ?s this) i = Some l"
    and slot: "components (entityObjs ?s this) i = Some x"
    and lk: "isLinkedComponent (componentObjs ?s x)"
    by (simp_all add: holdsLinked_def)
  have g: "getLinkedComponentList this (Inl T) True ?s = (Some l, ?s)"
    using reg lst by (simp add: getLinkedComponentList_def getComponentId_lookup)
  have loop: "entityCall observe n this (RemoveLoop T l) ?s
      = Some (Return None (fold (withdrawn this i l) xs ?s))"
    using h assms(2,3) by (rule removeLoop_all)
  have "remove observe n this (ClassKey T) s = Some (Return (Some x) (fold (withdrawn this i l) xs ?s))"
    using reg slot lk g loop
    by (simp add: remove_class_unfold removeComponent_unfold getComponentId_lookup)
  then show ?thesis
    using fold_withdrawn[OF h assms(2)] xs by simp
qed

subsection \<open>Appending to a linked list\<close>

lemma chain_snoc:
  "chain objs p xs \<Longrightarrow> xs \<noteq> [] \<Longrightarrow> c \<notin> set xs \<Longrightarrow> nextOf (objs c) = None \<Longrightarrow>
   chain (objs(last xs := (objs (last xs))\<lparr>ownNext := Some (Some c)\<rparr>)) p (xs @ [c])"
proof (induction xs arbitrary: p)
  case Nil
  then show ?case by simp
next
  case (Cons x xs)
  note IH = Cons.IH and prems = Cons.prems
  from prems(1) have d: "x \<notin> set xs" using chain_distinct[OF prems(1)] by simp
  show ?case
  proof (cases "xs = []")
    case True
    then show ?thesis using prems by (simp add: nextOf_def)
  next
    case False
    then have "last xs \<noteq> x" using d last_in_set by metis
    then show ?thesis using IH[of "nextOf (objs x)"] prems False by (simp add: nextOf_def)
  qed
qed

lemma list_add_new:
  assumes "chain (componentObjs s) (listObjs s l) xs" "c \<notin> set xs" "length xs \<le> n"
  shows "list_add n l c s =
     Some (Return () (if xs = [] then s\<lparr>listObjs := (listObjs s)(l := Some c)\<rparr>
                       else setNext (last xs) (Some c) s))"
proof (cases "xs = []")
  case True
  then show ?thesis using assms by (simp add: list_add_def)
next
  case False
  then have "listObjs s l \<noteq> None" using assms(1) by (cases xs) auto
  then show ?thesis
    using list_add_loop_new[OF assms, of None] False by (auto simp add: list_add_def)
qed

lemma list_add_duplicate:
  assumes "chain (componentObjs s) (listObjs s l) xs" "c \<in> set xs" "length xs \<le> n"
  shows "list_add n l c s = Some (Throw DuplicateAppend s)"
  using list_add_loop_duplicate[OF assms, of None] by (simp add: list_add_def)

lemma appendComponent_more:
  assumes h: "holdsLinked s this T i l xs" and ne: "xs \<noteq> []" and new: "c \<notin> set xs"
    and cls: "getComponentClass (componentObjs s c) rc = Inr T"
    and len: "length xs \<le> n"
  shows "appendComponent observe n this c rc s =
     Some (Return () ((setNext (last xs) (Some c) s)
        \<lparr>observed := observed s @
           map (\<lambda>it. (handler it, ComponentAdded this (IsComponent c)))
             (onComponentAdded (entityObjs s this))\<rparr>))"
proof -
  from h ne have reg: "componentIds s (className T) = Some i"
    and lst: "linkedComponents (entityObjs s this) i = Some l"
    and ch: "chain (componentObjs s) (listObjs s l) xs"
    by (simp_all add: holdsLinked_def)
  from h ne obtain y where slot: "components (entityObjs s this) i = Some y"
    by (cases xs) (auto simp add: holdsLinked_def)
  have g: "getLinkedComponentList this (Inr i) True s = (Some l, s)"
    using lst by (simp add: getLinkedComponentList_def)
  show ?thesis
    using cls slot ne
    by (simp add: appendComponent_def componentIdOf_registered[OF reg] g
        list_add_new[OF ch new len] dispatchOnComponentAdded_observe setNext_def)
qed

lemma holdsLinked_appended:
  assumes h: "holdsLinked s this T i l xs" and ne: "xs \<noteq> []" and new: "c \<notin> set xs"
    and inst: "instanceOf (proto (componentObjs s c)) T"
    and nx: "ownNext (componentObjs s c) = Some None"
  shows "holdsLinked ((setNext (last xs) (Some c) s)\<lparr>observed := obs\<rparr>) this T i l (xs @ [c])"
proof -
  from h have ch: "chain (componentObjs s) (listObjs s l) xs" by (simp add: holdsLinked_def)
  have "nextOf (componentObjs s c) = None" using nx by (simp add: nextOf_def)
  from chain_snoc[OF ch ne new this] h new inst nx
  show ?thesis
    by (auto simp add: holdsLinked_def setNext_def isLinkedComponent_def)
qed

lemma appendComponent_first:
  assumes no: "noLinked s this T"
    and cls: "getComponentClass (componentObjs s c) rc = Inr T"
  shows "appendComponent observe n this c rc s =
     Some (Return ()
       ((snd (componentIdOf T s))
          \<lparr>listObjs := (listObjs s)(listCount s := Some c),
           listCount := listCount s + 1,
           entityObjs := (entityObjs s)(this := (entityObjs s this)
             \<lparr>components := (components (entityObjs s this))(fst (componentIdOf T s) \<mapsto> c),
              linkedComponents :=
                (linkedComponents (entityObjs s this))(fst (componentIdOf T s) \<mapsto> listCount s)\<rparr>),
           observed := observed s @
             map (\<lambda>it. (handler it, ComponentAdded this (IsComponent c)))
               (onComponentAdded (entityObjs s this))\<rparr>))"
proof (cases "componentIds s (className T)")
  case None
  then show ?thesis
    using no cls
    by (simp add: noLinked_def appendComponent_def componentIdOf_fresh getLinkedComponentList_def
        list_add_def setEntity_def dispatchOnComponentAdded_observe)
next
  case (Some i)
  then show ?thesis
    using no cls
    by (simp add: noLinked_def appendComponent_def componentIdOf_registered getLinkedComponentList_def
        list_add_def setEntity_def dispatchOnComponentAdded_observe)
qed

lemma holdsLinked_first:
  assumes inst: "instanceOf (proto (componentObjs s c)) T"
    and nx: "ownNext (componentObjs s c) = Some None"
  shows "holdsLinked
       ((snd (componentIdOf T s))
          \<lparr>listObjs := (listObjs s)(listCount s := Some c),
           listCount := listCount s + 1,
           entityObjs := (entityObjs s)(this := (entityObjs s this)
             \<lparr>components := (components (entityObjs s this))(fst (componentIdOf T s) \<mapsto> c),
              linkedComponents :=
                (linkedComponents (entityObjs s this))(fst (componentIdOf T s) \<mapsto> listCount s)\<rparr>),
           observed := obs\<rparr>)
       this T (fst (componentIdOf T s)) (listCount s) [c]"
proof (cases "componentIds s (className T)")
  case None
  then show ?thesis using assms
    by (simp add: holdsLinked_def componentIdOf_fresh nextOf_def isLinkedComponent_def)
next
  case (Some i)
  then show ?thesis using assms
    by (simp add: holdsLinked_def componentIdOf_registered nextOf_def isLinkedComponent_def)
qed

subsection \<open>Appending several fresh instances\<close>

lemma forEach_snoc:
  "forEach f (xs @ [x]) s = bind (forEach f xs s) (\<lambda>_. f x)"
proof (induction xs arbitrary: s)
  case Nil
  show ?case by (cases "f x s") (auto simp: bind_def split: outcome.splits)
next
  case (Cons y ys)
  show ?case
  proof (cases "f y s")
    case None
    then show ?thesis by simp
  next
    case (Some r)
    then show ?thesis using Cons by (cases r) simp_all
  qed
qed

lemma getComponentClass_own:
  "getComponentClass obj None = Inr (proto obj)"
  by (simp add: getComponentClass_def)

lemma instanceOf_refl: "instanceOf T T"
  by (cases T) simp

lemma append_fresh_list:
  assumes no: "noLinked s this T" and d: "distinct cs" and ne: "cs \<noteq> []"
    and fresh: "\<forall>c\<in>set cs. proto (componentObjs s c) = T \<and> ownNext (componentObjs s c) = Some None"
    and len: "length cs \<le> n"
  shows "\<exists>s' i l. forEach (\<lambda>c. append observe n this c None) cs s = Some (Return () s') \<and>
           holdsLinked s' this T i l cs \<and>
           (\<forall>r. r \<notin> set cs \<longrightarrow> componentObjs s' r = componentObjs s r) \<and>
           (\<forall>r. proto (componentObjs s' r) = proto (componentObjs s r)) \<and>
           onComponentRemoved (entityObjs s' this) = onComponentRemoved (entityObjs s this) \<and>
           onComponentAdded (entityObjs s' this) = onComponentAdded (entityObjs s this) \<and>
           observed s' = observed s @
             concat (map (\<lambda>c. map (\<lambda>it. (handler it, ComponentAdded this (IsComponent c)))
                               (onComponentAdded (entityObjs s this))) cs)"
  using d ne fresh len
proof (induction cs rule: rev_induct)
  case Nil
  then show ?case by simp
next
  case (snoc c cs)
  note IH = snoc.IH and prems = snoc.prems
  have cT: "proto (componentObjs s c) = T" and cN: "ownNext (componentObjs s c) = Some None"
    using prems(3) by simp_all
  show ?case
  proof (cases "cs = []")
    case True
    have cls: "getComponentClass (componentObjs s c) None = Inr T"
      using cT by (simp add: getComponentClass_own)
    have inst: "instanceOf (proto (componentObjs s c)) T"
      using cT by (simp add: instanceOf_refl)
    show ?thesis
      using True appendComponent_first[OF no cls, of n] holdsLinked_first[OF inst cN, where this=this]
      by (auto simp add: append_def intro!: exI)
  next
    case False
    from IH[OF _ False] prems obtain s1 i l where
      run: "forEach (\<lambda>c. append observe n this c None) cs s = Some (Return () s1)"
      and h: "holdsLinked s1 this T i l cs"
      and frame: "\<forall>r. r \<notin> set cs \<longrightarrow> componentObjs s1 r = componentObjs s r"
      and protos: "\<forall>r. proto (componentObjs s1 r) = proto (componentObjs s r)"
      and hs: "onComponentRemoved (entityObjs s1 this) = onComponentRemoved (entityObjs s this)"
      and ha: "onComponentAdded (entityObjs s1 this) = onComponentAdded (entityObjs s this)"
      and obs: "observed s1 = observed s @
             concat (map (\<lambda>c. map (\<lambda>it. (handler it, ComponentAdded this (IsComponent c)))
                               (onComponentAdded (entityObjs s this))) cs)"
      by auto
    have new: "c \<notin> set cs" using prems(1) by simp
    then have same: "componentObjs s1 c = componentObjs s c" using frame by simp
    have cls: "getComponentClass (componentObjs s1 c) None = Inr T"
      using cT same by (simp add: getComponentClass_own)
    have inst: "instanceOf (proto (componentObjs s1 c)) T"
      using cT same by (simp add: instanceOf_refl)
    have len: "length cs \<le> n" using prems(4) by simp
    let ?s' = "(setNext (last cs) (Some c) s1)
        \<lparr>observed := observed s1 @
           map (\<lambda>it. (handler it, ComponentAdded this (IsComponent c)))
             (onComponentAdded (entityObjs s1 this))\<rparr>"
    have step: "append observe n this c None s1 = Some (Return () ?s')"
      using appendComponent_more[OF h False new cls len] by (simp add: append_def)
    have h': "holdsLinked ?s' this T i l (cs @ [c])"
      using holdsLinked_appended[OF h False new inst] cN same by simp
    have "forEach (\<lambda>c. append observe n this c None) (cs @ [c]) s = Some (Return () ?s')"
      using run step by (simp add: forEach_snoc)
    moreover have "\<forall>r. r \<notin> set (cs @ [c]) \<longrightarrow> componentObjs ?s' r = componentObjs s r"
      using frame False by (auto simp add: setNext_def)
    moreover have "\<forall>r. proto (componentObjs ?s' r) = proto (componentObjs s r)"
      using protos by (simp add: setNext_def)
    moreover have "onComponentRemoved (entityObjs ?s' this) = onComponentRemoved (entityObjs s this)"
      using hs by (simp add: setNext_def)
    moreover have "onComponentAdded (entityObjs ?s' this) = onComponentAdded (entityObjs s this)"
      using ha by (simp add: setNext_def)
    moreover have "observed ?s' = observed s @
             concat (map (\<lambda>c. map (\<lambda>it. (handler it, ComponentAdded this (IsComponent c)))
                               (onComponentAdded (entityObjs s this))) (cs @ [c]))"
      using obs ha by simp
    ultimately show ?thesis using h' by blast
  qed
qed

subsection \<open>remove, withdraw and append on linked components\<close>

lemma removedAll_absent:
  "componentIds s (className T) = Some i \<Longrightarrow>
   \<not> has this (ClassKey T) (removedAll this i l xs s) \<and> get this T (removedAll this i l xs s) = None"
  by (simp add: has_def hasComponent_def get_def getComponentId_lookup removedAll_def)

text \<open>
  On a well-formed list. An entity holds the linked list \<open>xs\<close> of \<open>n\<close> instances of the
  class \<open>T\<close>, all of them linked components, with the slot at the head and the chain of
  \<^verbatim>\<open>next\<close> pointers ending after the last of them. Then \<^verbatim>\<open>remove(T)\<close> returns the head
  of the list and leaves the store \<open>removedAll \<dots>\<close>: the entity has no slot and no list
  for \<open>T\<close> (\<^verbatim>\<open>has(T)\<close> is false), and each handler of \<^verbatim>\<open>onComponentRemoved\<close> was
  called once per instance, in list order. The fuel must exceed the number of instances.
\<close>

lemma remove_linked_removes_all:
  assumes "holdsLinked s this T i l xs" and "xs \<noteq> []" and "length xs < n"
  shows "remove observe n this (ClassKey T) s =
           Some (Return (Some (hd xs))
             (removedAll this i l xs (s\<lparr>NumberComponents := NumberComponents s - 1\<rparr>))) \<and>
         \<not> has this (ClassKey T) (removedAll this i l xs (s\<lparr>NumberComponents := NumberComponents s - 1\<rparr>)) \<and>
         observed (removedAll this i l xs (s\<lparr>NumberComponents := NumberComponents s - 1\<rparr>)) =
           observed s @
             concat (map (\<lambda>x. map (\<lambda>it. (handler it, ComponentRemoved this (IsComponent x)))
                               (onComponentRemoved (entityObjs s this))) xs)"
proof -
  have "componentIds (s\<lparr>NumberComponents := NumberComponents s - 1\<rparr>) (className T) = Some i"
    using assms(1) by (simp add: holdsLinked_def)
  from removedAll_absent[OF this] remove_linked[OF assms] show ?thesis
    by (simp add: removedAll_def)
qed

text \<open>
  After appending the three fresh instances 10, 11 and 12 to entity 1 of the example
  store, \<^verbatim>\<open>remove(Damage)\<close> returns instance 10, the entity has no \<open>Damage\<close> left,
  and the observer has received the three added events and then exactly three removed
  events.
\<close>

lemma remove_linked_removes_all_witness:
  "\<exists>s3 s'. forEach (\<lambda>c. append observe 4 1 c None) [10, 11, 12] exampleStore = Some (Return () s3) \<and>
     remove observe 4 1 (ClassKey Damage) s3 = Some (Return (Some 10) s') \<and>
     \<not> has 1 (ClassKey Damage) s' \<and>
     observed s' =
       [(Observer 0, ComponentAdded 1 (IsComponent 10)),
        (Observer 0, ComponentAdded 1 (IsComponent 11)),
        (Observer 0, ComponentAdded 1 (IsComponent 12)),
        (Observer 0, ComponentRemoved 1 (IsComponent 10)),
        (Observer 0, ComponentRemoved 1 (IsComponent 11)),
        (Observer 0, ComponentRemoved 1 (IsComponent 12))]"
proof -
  have no: "noLinked exampleStore 1 Damage"
    by (simp add: noLinked_def exampleStore_def componentIdOf_def getComponentId_def newEntityObj_def)
  have fresh: "\<forall>c\<in>set [10, 11, 12].
      proto (componentObjs exampleStore c) = Damage \<and> ownNext (componentObjs exampleStore c) = Some None"
    by (simp add: exampleStore_def)
  from append_fresh_list[OF no _ _ fresh, of 4]
  obtain s3 i l where
    run: "forEach (\<lambda>c. append observe 4 1 c None) [10, 11, 12] exampleStore = Some (Return () s3)"
    and h: "holdsLinked s3 1 Damage i l [10, 11, 12]"
    and hs: "onComponentRemoved (entityObjs s3 1) = onComponentRemoved (entityObjs exampleStore 1)"
    and obs: "observed s3 = observed exampleStore @
             concat (map (\<lambda>c. map (\<lambda>it. (handler it, ComponentAdded 1 (IsComponent c)))
                               (onComponentAdded (entityObjs exampleStore 1))) [10, 11, 12])"
    by auto
  from remove_linked_removes_all[OF h, of 4] run hs obs show ?thesis
    by (simp add: exampleStore_def)
qed

text \<open>
  Claim C4 fails on the code when an instance is appended again after it was withdrawn:
  \<^verbatim>\<open>LinkedComponentList.remove\<close> leaves the \<^verbatim>\<open>next\<close> pointer of the instance it takes
  out, and \<^verbatim>\<open>LinkedComponentList.add\<close> does not reset the pointer of the instance it puts
  in. Entity 1 of the example store gets the instances 10 and 11 appended, and both are
  withdrawn again; the entity has no \<open>Damage\<close> then, and the \<^verbatim>\<open>next\<close> of instance 10 still
  points at 11. Now three instances are appended, 10, 12 and 13, with three added events.
  \<^verbatim>\<open>remove(Damage)\<close> returns 10, leaves the entity without \<open>Damage\<close>, and the observer has
  received four removed events: for 10, 11, 12 and 13.
\<close>

theorem remove_after_reappend_fires_four:
  "case bind (append observe 9 1 10 None exampleStore) (\<lambda>_ s.
        bind (append observe 9 1 11 None s) (\<lambda>_ s.
        bind (withdraw observe 9 1 Damage s) (\<lambda>a s.
        bind (withdraw observe 9 1 Damage s) (\<lambda>b s. Some (Return [a, b] s))))) of
     Some (Return ab s0) \<Rightarrow>
       ab = [Some 10, Some 11] \<and> \<not> has 1 (ClassKey Damage) s0 \<and>
       nextOf (componentObjs s0 10) = Some 11 \<and>
       (case bind (append observe 9 1 10 None s0) (\<lambda>_ s.
             bind (append observe 9 1 12 None s) (\<lambda>_. append observe 9 1 13 None)) of
          Some (Return u s3) \<Rightarrow>
            addedInstances (drop (length (observed s0)) (observed s3)) = [10, 12, 13] \<and>
            (case remove observe 9 1 (ClassKey Damage) s3 of
               Some (Return r s7) \<Rightarrow>
                 r = Some 10 \<and> \<not> has 1 (ClassKey Damage) s7 \<and>
                 removedInstances (drop (length (observed s3)) (observed s7)) = [10, 11, 12, 13]
             | _ \<Rightarrow> False)
        | _ \<Rightarrow> False)
   | _ \<Rightarrow> False"
  by code_simp

text \<open>
  A list whose last instance has no \<^verbatim>\<open>next\<close> property of its own: the objects 1 and 2
  of the example store are appended to entity 1. \<^verbatim>\<open>remove\<close> withdraws object 1 and
  then takes object 2 for a plain component, which empties the slot and leaves the list
  as it is; the loop \<^verbatim>\<open>while (!list.isEmpty)\<close> goes on, and with fuel 50 it has no
  result.
\<close>

lemma remove_without_own_next:
  "case bind (append observe 50 1 1 None exampleStore) (\<lambda>_. append observe 50 1 2 None) of
     Some (Return u s) \<Rightarrow>
       (case remove observe 50 1 (ClassKey Position) s of None \<Rightarrow> True | _ \<Rightarrow> False)
   | _ \<Rightarrow> False"
  by code_simp

lemma holdsLinked_withdrawn_objs:
  "componentObjs (withdrawn this i l x s) = componentObjs s"
  by (simp add: withdrawn_def)

lemma withdraw_three:
  assumes h: "holdsLinked s this T i l [a, b, c]" and n: "0 < n"
  shows "\<exists>s'. bind (withdraw observe n this T s) (\<lambda>r1 s4.
           bind (withdraw observe n this T s4) (\<lambda>r2 s5.
           bind (withdraw observe n this T s5) (\<lambda>r3 s6.
             Some (Return [r1, r2, r3] s6)))) = Some (Return [Some a, Some b, Some c] s')"
proof -
  let ?s4 = "withdrawn this i l a s"
  let ?s5 = "withdrawn this i l b ?s4"
  let ?s6 = "withdrawn this i l c ?s5"
  have w1: "withdraw observe n this T s = Some (Return (Some a) ?s4)"
    using h n by (rule withdraw_head)
  have h4: "holdsLinked ?s4 this T i l [b, c]"
    using h by (rule withdrawn_holdsLinked)
  have w2: "withdraw observe n this T ?s4 = Some (Return (Some b) ?s5)"
    using h4 n by (rule withdraw_head)
  have h5: "holdsLinked ?s5 this T i l [c]"
    using h4 by (rule withdrawn_holdsLinked)
  have w3: "withdraw observe n this T ?s5 = Some (Return (Some c) ?s6)"
    using h5 n by (rule withdraw_head)
  show ?thesis using w1 w2 w3 by simp
qed

text \<open>
  On a well-formed list. (1) When the entity has no instance of \<open>T\<close>, \<^verbatim>\<open>withdraw(T)\<close> returns
  \<^verbatim>\<open>undefined\<close> and the store is unchanged. (2) When the entity holds the linked list
  \<open>x # xs\<close> for \<open>T\<close>, \<^verbatim>\<open>withdraw(T)\<close> returns the head \<open>x\<close>; afterwards the list holds
  exactly \<open>xs\<close>, no instance was written to, and the entity's slot points at the new head
  (or is gone when \<open>xs\<close> is empty). (3) Appending three distinct fresh instances \<open>a\<close>,
  \<open>b\<close>, \<open>c\<close> of \<open>T\<close> (their own \<^verbatim>\<open>next\<close> is \<^verbatim>\<open>undefined\<close>) to an entity without \<open>T\<close>
  and calling \<^verbatim>\<open>withdraw(T)\<close> three times returns \<open>a\<close>, then \<open>b\<close>, then \<open>c\<close>.
\<close>

lemma withdraw_head_fifo:
  "(get this T s = None \<longrightarrow> withdraw run n this T s = Some (Return None s)) \<and>
   (holdsLinked s this T i l (x # xs) \<and> 0 < n \<longrightarrow>
      withdraw observe n this T s = Some (Return (Some x) (withdrawn this i l x s)) \<and>
      chain (componentObjs (withdrawn this i l x s)) (listObjs (withdrawn this i l x s) l) xs \<and>
      componentObjs (withdrawn this i l x s) = componentObjs s \<and>
      components (entityObjs (withdrawn this i l x s) this) i = (case xs of [] \<Rightarrow> None | y # _ \<Rightarrow> Some y)) \<and>
   (noLinked s this T \<and> distinct [a, b, c] \<and>
    (\<forall>r\<in>set [a, b, c]. proto (componentObjs s r) = T \<and> ownNext (componentObjs s r) = Some None) \<and>
    3 \<le> n \<longrightarrow>
      (\<exists>s'. bind (forEach (\<lambda>r. append observe n this r None) [a, b, c] s) (\<lambda>_ s3.
             bind (withdraw observe n this T s3) (\<lambda>r1 s4.
             bind (withdraw observe n this T s4) (\<lambda>r2 s5.
             bind (withdraw observe n this T s5) (\<lambda>r3 s6.
               Some (Return [r1, r2, r3] s6))))) = Some (Return [Some a, Some b, Some c] s')))"
proof (intro conjI impI)
  assume "get this T s = None"
  then show "withdraw run n this T s = Some (Return None s)" by (rule withdraw_absent)
next
  assume a: "holdsLinked s this T i l (x # xs) \<and> 0 < n"
  then show "withdraw observe n this T s = Some (Return (Some x) (withdrawn this i l x s))"
    by (auto intro: withdraw_head)
  from a show "chain (componentObjs (withdrawn this i l x s)) (listObjs (withdrawn this i l x s) l) xs"
    by (auto intro: withdrawn_chain)
  show "componentObjs (withdrawn this i l x s) = componentObjs s"
    by (rule holdsLinked_withdrawn_objs)
  from a show "components (entityObjs (withdrawn this i l x s) this) i = (case xs of [] \<Rightarrow> None | y # _ \<Rightarrow> Some y)"
    by (cases xs) (simp_all add: holdsLinked_def withdrawn_def)
next
  assume a: "noLinked s this T \<and> distinct [a, b, c] \<and>
    (\<forall>r\<in>set [a, b, c]. proto (componentObjs s r) = T \<and> ownNext (componentObjs s r) = Some None) \<and> 3 \<le> n"
  then have no: "noLinked s this T" and d: "distinct [a, b, c]"
    and fresh: "\<forall>r\<in>set [a, b, c]. proto (componentObjs s r) = T \<and> ownNext (componentObjs s r) = Some None"
    and n: "length [a, b, c] \<le> n" by simp_all
  from append_fresh_list[OF no d _ fresh n]
  obtain s3 i l where
    run: "forEach (\<lambda>c. append observe n this c None) [a, b, c] s = Some (Return () s3)"
    and h: "holdsLinked s3 this T i l [a, b, c]"
    by auto
  have "0 < n" using n by simp
  from withdraw_three[OF h this] run
  show "\<exists>s'. bind (forEach (\<lambda>r. append observe n this r None) [a, b, c] s) (\<lambda>_ s3.
             bind (withdraw observe n this T s3) (\<lambda>r1 s4.
             bind (withdraw observe n this T s4) (\<lambda>r2 s5.
             bind (withdraw observe n this T s5) (\<lambda>r3 s6.
               Some (Return [r1, r2, r3] s6))))) = Some (Return [Some a, Some b, Some c] s')"
    by simp
qed

lemma withdraw_head_fifo_witness:
  "withdraw observe 3 1 Damage exampleStore = Some (Return None exampleStore) \<and>
   (\<exists>s'. bind (forEach (\<lambda>r. append observe 3 1 r None) [10, 11, 12] exampleStore) (\<lambda>_ s3.
          bind (withdraw observe 3 1 Damage s3) (\<lambda>r1 s4.
          bind (withdraw observe 3 1 Damage s4) (\<lambda>r2 s5.
          bind (withdraw observe 3 1 Damage s5) (\<lambda>r3 s6.
            Some (Return [r1, r2, r3] s6))))) = Some (Return [Some 10, Some 11, Some 12] s'))"
proof -
  have g: "get 1 Damage exampleStore = None"
    by (simp add: get_def getComponentId_def exampleStore_def)
  have no: "noLinked exampleStore 1 Damage"
    by (simp add: noLinked_def exampleStore_def componentIdOf_def getComponentId_def newEntityObj_def)
  have fresh: "\<forall>c\<in>set [10, 11, 12].
      proto (componentObjs exampleStore c) = Damage \<and> ownNext (componentObjs exampleStore c) = Some None"
    by (simp add: exampleStore_def)
  have d: "distinct [10::nat, 11, 12]" by simp
  from withdraw_head_fifo[of 1 Damage exampleStore observe 3 _ _ _ _ 10 11 12] g no fresh d
  show ?thesis by simp
qed

text \<open>
  Claim C7 fails on the code when an instance is appended again after it was withdrawn
  (the stale \<^verbatim>\<open>next\<close> pointer that also breaks claim C4). Entity 1 of the example store
  gets the instances 10 and 11 appended, and both are withdrawn again, 10 and then 11;
  the entity has no \<open>Damage\<close> then. Now 10, 12 and 13 are appended in this order, with
  one added event each. Three calls of \<^verbatim>\<open>withdraw(Damage)\<close> return 10, then 11, then
  12: instance 11, which was not appended again, comes back, and 13 is still on the
  entity.
\<close>

theorem withdraw_after_reappend_not_fifo:
  "case bind (append observe 9 1 10 None exampleStore) (\<lambda>_ s.
        bind (append observe 9 1 11 None s) (\<lambda>_ s.
        bind (withdraw observe 9 1 Damage s) (\<lambda>a s.
        bind (withdraw observe 9 1 Damage s) (\<lambda>b s. Some (Return [a, b] s))))) of
     Some (Return ab s0) \<Rightarrow>
       ab = [Some 10, Some 11] \<and> \<not> has 1 (ClassKey Damage) s0 \<and> get 1 Damage s0 = None \<and>
       (case bind (append observe 9 1 10 None s0) (\<lambda>_ s.
             bind (append observe 9 1 12 None s) (\<lambda>_. append observe 9 1 13 None)) of
          Some (Return u s3) \<Rightarrow>
            addedInstances (drop (length (observed s0)) (observed s3)) = [10, 12, 13] \<and>
            (case bind (withdraw observe 9 1 Damage s3) (\<lambda>r1 s.
                  bind (withdraw observe 9 1 Damage s) (\<lambda>r2 s.
                  bind (withdraw observe 9 1 Damage s) (\<lambda>r3 s. Some (Return [r1, r2, r3] s)))) of
               Some (Return rs s6) \<Rightarrow>
                 rs = [Some 10, Some 11, Some 12] \<and> get 1 Damage s6 = Some 13
             | _ \<Rightarrow> False)
        | _ \<Rightarrow> False)
   | _ \<Rightarrow> False"
  by code_simp

lemma holdsLinked_linkedInstances:
  "holdsLinked s this T i l xs \<Longrightarrow> linkedInstances s this T xs"
  by (simp add: holdsLinked_def linkedInstances_def)

text \<open>
  Claim C8. Let \<open>xs\<close> be the instances in the entity's linked list for the class \<open>T\<close>
  that \<^verbatim>\<open>append\<close> resolves for the component. If the component is one of \<open>xs\<close>, the
  call throws the duplicate error and the store is as before (no write, no event); if
  it is not, the call returns. The resolve class is taken to be acceptable: a class
  that is no ancestor makes \<^verbatim>\<open>append\<close> throw the other error, whatever the list holds.
\<close>

theorem append_duplicate_throws:
  assumes "linkedInstances s this T xs"
    and "getComponentClass (componentObjs s c) rc = Inr T"
    and "length xs \<le> n"
  shows "(c \<in> set xs \<longrightarrow> appendComponent run n this c rc s = Some (Throw DuplicateAppend s)) \<and>
         (c \<notin> set xs \<longrightarrow> (\<exists>s'. appendComponent observe n this c rc s = Some (Return () s')))"
proof (cases "componentIds s (className T)")
  case None
  then have xs: "xs = []" and nl: "linkedComponents (entityObjs s this) (componentClassId s) = None"
    using assms(1) by (simp_all add: linkedInstances_def)
  show ?thesis
    using xs nl None assms(2)
    by (simp add: appendComponent_def componentIdOf_fresh getLinkedComponentList_def
        list_add_def dispatchOnComponentAdded_observe setEntity_def)
next
  case (Some i)
  note reg = this
  show ?thesis
  proof (cases "linkedComponents (entityObjs s this) i")
    case None
    then have xs: "xs = []" using assms(1) reg by (simp add: linkedInstances_def)
    show ?thesis
      using xs None assms(2)
      by (simp add: appendComponent_def componentIdOf_registered[OF reg] getLinkedComponentList_def
          list_add_def dispatchOnComponentAdded_observe setEntity_def)
  next
    case (Some l)
    then have ch: "chain (componentObjs s) (listObjs s l) xs"
      using assms(1) reg by (simp add: linkedInstances_def)
    have g: "getLinkedComponentList this (Inr i) True s = (Some l, s)"
      using Some by (simp add: getLinkedComponentList_def)
    show ?thesis
    proof (intro conjI impI)
      assume "c \<in> set xs"
      from list_add_duplicate[OF ch this assms(3)]
      show "appendComponent run n this c rc s = Some (Throw DuplicateAppend s)"
        using assms(2) by (simp add: appendComponent_def componentIdOf_registered[OF reg] g)
    next
      assume "c \<notin> set xs"
      from list_add_new[OF ch this assms(3)]
      show "\<exists>s'. appendComponent observe n this c rc s = Some (Return () s')"
        using assms(2)
        by (simp add: appendComponent_def componentIdOf_registered[OF reg] g
            dispatchOnComponentAdded_observe)
    qed
  qed
qed

text \<open>
  With the instances 10 and 11 appended to entity 1 of the example store, appending
  instance 10 again throws and leaves the store as it is, and appending instance 12
  returns.
\<close>

theorem append_duplicate_throws_witness:
  "\<exists>s2. forEach (\<lambda>c. append observe 2 1 c None) [10, 11] exampleStore = Some (Return () s2) \<and>
     appendComponent observe 2 1 10 None s2 = Some (Throw DuplicateAppend s2) \<and>
     (\<exists>s'. appendComponent observe 2 1 12 None s2 = Some (Return () s'))"
proof -
  have no: "noLinked exampleStore 1 Damage"
    by (simp add: noLinked_def exampleStore_def componentIdOf_def getComponentId_def newEntityObj_def)
  have fresh: "\<forall>c\<in>set [10, 11].
      proto (componentObjs exampleStore c) = Damage \<and> ownNext (componentObjs exampleStore c) = Some None"
    by (simp add: exampleStore_def)
  from append_fresh_list[OF no _ _ fresh, of 2]
  obtain s2 i l where
    run: "forEach (\<lambda>c. append observe 2 1 c None) [10, 11] exampleStore = Some (Return () s2)"
    and h: "holdsLinked s2 1 Damage i l [10, 11]"
    and protos: "\<forall>r. proto (componentObjs s2 r) = proto (componentObjs exampleStore r)"
    by auto
  have li: "linkedInstances s2 1 Damage [10, 11]"
    using h by (rule holdsLinked_linkedInstances)
  have c10: "getComponentClass (componentObjs s2 10) None = Inr Damage"
    using protos by (simp add: getComponentClass_own exampleStore_def)
  have c12: "getComponentClass (componentObjs s2 12) None = Inr Damage"
    using protos by (simp add: getComponentClass_own exampleStore_def)
  from append_duplicate_throws[OF li c10, of 2 observe] append_duplicate_throws[OF li c12, of 2 observe] run
  show ?thesis by simp
qed

subsection \<open>Adding a plain component\<close>

lemma remove_plain_observe:
  assumes reg: "componentIds s (className T) = Some i"
    and slot: "components (entityObjs s this) i = Some c1"
    and plain: "\<not> isLinkedComponent (componentObjs s c1)"
  shows "remove observe n this (ClassKey T) s =
     Some (Return (Some c1)
       (s\<lparr>NumberComponents := NumberComponents s - 1,
          entityObjs := (entityObjs s)(this := (entityObjs s this)
            \<lparr>components := (components (entityObjs s this))(i := None)\<rparr>),
          observed := observed s @
            map (\<lambda>it. (handler it, ComponentRemoved this (IsComponent c1)))
              (onComponentRemoved (entityObjs s this))\<rparr>))"
  using assms
  by (simp add: remove_class_unfold removeComponent_unfold getComponentId_lookup removePlain_def
      dispatchOnComponentRemoved_observe setEntity_def)

lemma addComponent_same:
  assumes "getComponentClass (componentObjs s c) rc = Inr T"
    and "componentIds s (className T) = Some i"
    and "components (entityObjs s this) i = Some c"
    and "\<not> isLinkedComponent (componentObjs s c)"
  shows "addComponent run n this c rc s = Some (Return () s)"
  using assms by (simp add: addComponent_def componentIdOf_registered)

lemma addComponent_replace:
  assumes cls: "getComponentClass (componentObjs s c2) rc = Inr T"
    and reg: "componentIds s (className T) = Some i"
    and slot: "components (entityObjs s this) i = Some c1"
    and neq: "c1 \<noteq> c2"
    and p1: "\<not> isLinkedComponent (componentObjs s c1)"
    and p2: "\<not> isLinkedComponent (componentObjs s c2)"
  shows "addComponent observe n this c2 rc s =
     Some (Return ()
       (s\<lparr>entityObjs := (entityObjs s)(this := (entityObjs s this)
            \<lparr>components := (components (entityObjs s this))(i \<mapsto> c2)\<rparr>),
          observed := observed s @
            map (\<lambda>it. (handler it, ComponentRemoved this (IsComponent c1)))
              (onComponentRemoved (entityObjs s this)) @
            map (\<lambda>it. (handler it, ComponentAdded this (IsComponent c2)))
              (onComponentAdded (entityObjs s this))\<rparr>))"
  using cls slot neq p2
  by (simp add: addComponent_def componentIdOf_registered[OF reg]
      remove_plain_observe[OF reg slot p1] dispatchOnComponentAdded_observe setEntity_def)

lemma addComponent_new:
  assumes cls: "getComponentClass (componentObjs s c) rc = Inr T"
    and slot: "components (entityObjs s this) (fst (componentIdOf T s)) = None"
    and plain: "\<not> isLinkedComponent (componentObjs s c)"
  shows "addComponent observe n this c rc s =
     Some (Return ()
       ((snd (componentIdOf T s))
         \<lparr>NumberComponents := NumberComponents s + 1,
          entityObjs := (entityObjs s)(this := (entityObjs s this)
            \<lparr>components := (components (entityObjs s this))(fst (componentIdOf T s) \<mapsto> c)\<rparr>),
          observed := observed s @
            map (\<lambda>it. (handler it, ComponentAdded this (IsComponent c)))
              (onComponentAdded (entityObjs s this))\<rparr>))"
  using cls slot plain
  by (simp add: addComponent_def case_prod_beta dispatchOnComponentAdded_observe setEntity_def)

text \<open>
  Claim C5. The entity holds the plain instance \<open>c1\<close> in the slot of the class that
  \<^verbatim>\<open>add\<close> resolves for the plain instance \<open>c2\<close>, and \<open>c2\<close> is another object. Then
  \<^verbatim>\<open>add(c2)\<close> calls every handler of \<^verbatim>\<open>onComponentRemoved\<close> once, for \<open>c1\<close>, then
  every handler of \<^verbatim>\<open>onComponentAdded\<close> once, for \<open>c2\<close>; afterwards the slot holds
  \<open>c2\<close>, so \<^verbatim>\<open>get\<close> returns \<open>c2\<close>, and nothing else has changed.
\<close>

theorem add_replaces_plain:
  assumes "getComponentClass (componentObjs s c2) rc = Inr T"
    and "componentIds s (className T) = Some i"
    and "components (entityObjs s this) i = Some c1"
    and "c1 \<noteq> c2"
    and "\<not> isLinkedComponent (componentObjs s c1)"
    and "\<not> isLinkedComponent (componentObjs s c2)"
  shows "\<exists>s'. add observe n this (IsComponent c2) rc s = Some (Return () s') \<and>
           s' = s\<lparr>entityObjs := (entityObjs s)(this := (entityObjs s this)
                     \<lparr>components := (components (entityObjs s this))(i \<mapsto> c2)\<rparr>),
                   observed := observed s @
                     map (\<lambda>it. (handler it, ComponentRemoved this (IsComponent c1)))
                       (onComponentRemoved (entityObjs s this)) @
                     map (\<lambda>it. (handler it, ComponentAdded this (IsComponent c2)))
                       (onComponentAdded (entityObjs s this))\<rparr> \<and>
           get this T s' = Some c2"
  using addComponent_replace[OF assms] assms(2)
  by (simp add: add_def get_def getComponentId_lookup)

text \<open>
  In the example store, after the \<open>Position\<close> instance 1 was added to entity 1, adding
  the \<open>Position\<close> instance 2 sends the observer one removed event for instance 1 and
  then one added event for instance 2, and \<^verbatim>\<open>get(Position)\<close> returns instance 2.
\<close>

theorem add_replaces_plain_witness:
  "\<exists>s1 s2. add observe 0 1 (IsComponent 1) None exampleStore = Some (Return () s1) \<and>
     add observe 0 1 (IsComponent 2) None s1 = Some (Return () s2) \<and>
     observed s2 = observed s1 @
       [(Observer 0, ComponentRemoved 1 (IsComponent 1)), (Observer 0, ComponentAdded 1 (IsComponent 2))] \<and>
     get 1 Position s2 = Some 2"
proof -
  let ?s1 = "(snd (componentIdOf Position exampleStore))
         \<lparr>NumberComponents := NumberComponents exampleStore + 1,
          entityObjs := (entityObjs exampleStore)(1 := (entityObjs exampleStore 1)
            \<lparr>components := (components (entityObjs exampleStore 1))(fst (componentIdOf Position exampleStore) \<mapsto> 1)\<rparr>),
          observed := observed exampleStore @
            map (\<lambda>it. (handler it, ComponentAdded 1 (IsComponent 1)))
              (onComponentAdded (entityObjs exampleStore 1))\<rparr>"
  have id: "componentIdOf Position exampleStore =
      (1, exampleStore\<lparr>componentIds := [className Position \<mapsto> 1], componentClassId := 2\<rparr>)"
    by (simp add: componentIdOf_def getComponentId_def exampleStore_def)
  have a1: "add observe 0 1 (IsComponent 1) None exampleStore = Some (Return () ?s1)"
    unfolding add_def ComponentOrTag.case
    by (rule addComponent_new)
       (simp_all add: getComponentClass_def exampleStore_def id newEntityObj_def isLinkedComponent_def)
  have h1: "getComponentClass (componentObjs ?s1 2) None = Inr Position"
    by (simp add: getComponentClass_def exampleStore_def)
  have h2: "componentIds ?s1 (className Position) = Some 1"
    by (simp add: id)
  have h3: "components (entityObjs ?s1 1) 1 = Some 1"
    by (simp add: id)
  have h5: "\<not> isLinkedComponent (componentObjs ?s1 1)" "\<not> isLinkedComponent (componentObjs ?s1 2)"
    by (simp_all add: exampleStore_def isLinkedComponent_def)
  from add_replaces_plain[OF h1 h2 h3 _ h5, of 0]
  obtain s2 where a2: "add observe 0 1 (IsComponent 2) None ?s1 = Some (Return () s2)"
    and s2: "s2 = ?s1\<lparr>entityObjs := (entityObjs ?s1)(1 := (entityObjs ?s1 1)
                     \<lparr>components := (components (entityObjs ?s1 1))(1 \<mapsto> 2)\<rparr>),
                   observed := observed ?s1 @
                     map (\<lambda>it. (handler it, ComponentRemoved 1 (IsComponent 1)))
                       (onComponentRemoved (entityObjs ?s1 1)) @
                     map (\<lambda>it. (handler it, ComponentAdded 1 (IsComponent 2)))
                       (onComponentAdded (entityObjs ?s1 1))\<rparr>"
    and g: "get 1 Position s2 = Some 2"
    by auto
  have "observed s2 = observed ?s1 @
       [(Observer 0, ComponentRemoved 1 (IsComponent 1)), (Observer 0, ComponentAdded 1 (IsComponent 2))]"
    unfolding s2 by (simp add: exampleStore_def newEntityObj_def)
  with a1 a2 g show ?thesis by blast
qed

text \<open>
  Claim C9. The entity holds the plain instance \<open>c\<close> in the slot of the class that
  \<^verbatim>\<open>add\<close> resolves for \<open>c\<close>. Then \<^verbatim>\<open>add(c)\<close> returns with the store exactly as it
  was: the same components, lists and tags, no handler called, whatever the handlers
  would do.
\<close>

theorem add_same_instance_noop:
  assumes "getComponentClass (componentObjs s c) rc = Inr T"
    and "componentIds s (className T) = Some i"
    and "components (entityObjs s this) i = Some c"
    and "\<not> isLinkedComponent (componentObjs s c)"
  shows "add run n this (IsComponent c) rc s = Some (Return () s)"
  using addComponent_same[OF assms] by (simp add: add_def)

theorem add_same_instance_noop_witness:
  "\<exists>s1. add observe 0 1 (IsComponent 1) None exampleStore = Some (Return () s1) \<and>
     add observe 0 1 (IsComponent 1) None s1 = Some (Return () s1)"
proof -
  let ?s1 = "(snd (componentIdOf Position exampleStore))
         \<lparr>NumberComponents := NumberComponents exampleStore + 1,
          entityObjs := (entityObjs exampleStore)(1 := (entityObjs exampleStore 1)
            \<lparr>components := (components (entityObjs exampleStore 1))(fst (componentIdOf Position exampleStore) \<mapsto> 1)\<rparr>),
          observed := observed exampleStore @
            map (\<lambda>it. (handler it, ComponentAdded 1 (IsComponent 1)))
              (onComponentAdded (entityObjs exampleStore 1))\<rparr>"
  have id: "componentIdOf Position exampleStore =
      (1, exampleStore\<lparr>componentIds := [className Position \<mapsto> 1], componentClassId := 2\<rparr>)"
    by (simp add: componentIdOf_def getComponentId_def exampleStore_def)
  have a1: "add observe 0 1 (IsComponent 1) None exampleStore = Some (Return () ?s1)"
    unfolding add_def ComponentOrTag.case
    by (rule addComponent_new)
       (simp_all add: getComponentClass_def exampleStore_def id newEntityObj_def isLinkedComponent_def)
  have h1: "getComponentClass (componentObjs ?s1 1) None = Inr Position"
    by (simp add: getComponentClass_def exampleStore_def)
  have h2: "componentIds ?s1 (className Position) = Some 1"
    by (simp add: id)
  have h3: "components (entityObjs ?s1 1) 1 = Some 1"
    by (simp add: id)
  have h4: "\<not> isLinkedComponent (componentObjs ?s1 1)"
    by (simp add: exampleStore_def isLinkedComponent_def)
  from add_same_instance_noop[OF h1 h2 h3 h4, of observe 0] a1 show ?thesis by blast
qed

subsection \<open>Component ids go by the constructor name\<close>










subsection \<open>takeSnapshot\<close>

lemma has_class_slot:
  "has this (ClassKey T) (snd (componentIdOf T s)) =
     (components (entityObjs s this) (fst (componentIdOf T s)) \<noteq> None)"
  by (simp add: has_def hasComponent_def getComponentId_lookup componentIdOf_registers)

lemma takeSnapshot_current:
  "fst (takeSnapshot this result changed rc s) = result\<lparr>current := Some this\<rparr>"
  by (cases "current result = Some this")
     (auto simp add: takeSnapshot_def Let_def case_prod_beta
        split: option.splits ComponentOrTag.splits)

lemma takeSnapshot_entity:
  "previous result \<noteq> this \<Longrightarrow>
   entityObjs (snd (takeSnapshot this result changed rc s)) this = entityObjs s this"
  by (auto simp add: takeSnapshot_def Let_def case_prod_beta copyFrom_def setEntity_def
        split: option.splits ComponentOrTag.splits)

lemma takeSnapshot_tag:
  assumes "previous result \<noteq> this"
  shows "tags (entityObjs (snd (takeSnapshot this result (Some (IsTag t)) rc s)) (previous result)) =
           (if t \<in> tags (entityObjs s this)
            then tags (if current result \<noteq> Some this then entityObjs s this
                       else entityObjs s (previous result)) - {t}
            else insert t (tags (if current result \<noteq> Some this then entityObjs s this
                                 else entityObjs s (previous result))))"
    and "components (entityObjs (snd (takeSnapshot this result (Some (IsTag t)) rc s)) (previous result)) =
           components (if current result \<noteq> Some this then entityObjs s this
                       else entityObjs s (previous result))"
    and "linkedComponents (entityObjs (snd (takeSnapshot this result (Some (IsTag t)) rc s)) (previous result)) =
           linkedComponents (if current result \<noteq> Some this then entityObjs s this
                             else entityObjs s (previous result))"
  using assms
  by (auto simp add: takeSnapshot_def copyFrom_def setEntity_def has_def hasTag_def Let_def)

lemma takeSnapshot_component:
  assumes "previous result \<noteq> this"
    and "T = (case rc of Some k \<Rightarrow> k | None \<Rightarrow> proto (componentObjs s c))"
  shows "components (entityObjs (snd (takeSnapshot this result (Some (IsComponent c)) rc s)) (previous result)) =
           (if components (entityObjs s this) (fst (componentIdOf T s)) \<noteq> None
            then (components (if current result \<noteq> Some this then entityObjs s this
                              else entityObjs s (previous result)))(fst (componentIdOf T s) := None)
            else (components (if current result \<noteq> Some this then entityObjs s this
                              else entityObjs s (previous result)))(fst (componentIdOf T s) \<mapsto> c))"
    and "tags (entityObjs (snd (takeSnapshot this result (Some (IsComponent c)) rc s)) (previous result)) =
           tags (if current result \<noteq> Some this then entityObjs s this
                 else entityObjs s (previous result))"
    and "linkedComponents (entityObjs (snd (takeSnapshot this result (Some (IsComponent c)) rc s)) (previous result)) =
           linkedComponents (if current result \<noteq> Some this then entityObjs s this
                             else entityObjs s (previous result))"
proof -
  have id: "fst (componentIdOf T (copyFrom (previous result) this s)) = fst (componentIdOf T s)"
    by (simp add: componentIdOf_def getComponentId_def copyFrom_def setEntity_def split: option.splits)
  have h1: "has this (ClassKey T) (snd (componentIdOf T (copyFrom (previous result) this s))) =
      (components (entityObjs s this) (fst (componentIdOf T s)) \<noteq> None)"
    using assms(1) by (simp add: has_class_slot id) (simp add: copyFrom_def setEntity_def)
  have h2: "has this (ClassKey T) (snd (componentIdOf T s)) =
      (components (entityObjs s this) (fst (componentIdOf T s)) \<noteq> None)"
    by (rule has_class_slot)
  have T1: "(case rc of Some k \<Rightarrow> k | None \<Rightarrow> proto (componentObjs (copyFrom (previous result) this s) c)) = T"
    using assms(2) by (cases rc) simp_all
  have T2: "(case rc of Some k \<Rightarrow> k | None \<Rightarrow> proto (componentObjs s c)) = T"
    using assms(2) by simp
  show "components (entityObjs (snd (takeSnapshot this result (Some (IsComponent c)) rc s)) (previous result)) =
           (if components (entityObjs s this) (fst (componentIdOf T s)) \<noteq> None
            then (components (if current result \<noteq> Some this then entityObjs s this
                              else entityObjs s (previous result)))(fst (componentIdOf T s) := None)
            else (components (if current result \<noteq> Some this then entityObjs s this
                              else entityObjs s (previous result)))(fst (componentIdOf T s) \<mapsto> c))"
    using assms(1)
    by (cases "current result = Some this")
       (simp_all add: takeSnapshot_def Let_def case_prod_beta T1 T2 h1 h2 id setEntity_def,
        simp_all add: copyFrom_def setEntity_def)
  show "tags (entityObjs (snd (takeSnapshot this result (Some (IsComponent c)) rc s)) (previous result)) =
           tags (if current result \<noteq> Some this then entityObjs s this
                 else entityObjs s (previous result))"
    using assms(1)
    by (cases "current result = Some this")
       (simp_all add: takeSnapshot_def Let_def case_prod_beta T1 T2 h1 h2 id setEntity_def,
        simp_all add: copyFrom_def setEntity_def)
  show "linkedComponents (entityObjs (snd (takeSnapshot this result (Some (IsComponent c)) rc s)) (previous result)) =
           linkedComponents (if current result \<noteq> Some this then entityObjs s this
                             else entityObjs s (previous result))"
    using assms(1)
    by (cases "current result = Some this")
       (simp_all add: takeSnapshot_def Let_def case_prod_beta T1 T2 h1 h2 id setEntity_def,
        simp_all add: copyFrom_def setEntity_def)
qed

text \<open>
  What the code does. \<^verbatim>\<open>takeSnapshot\<close> for the changed tag or component \<open>x\<close>
  sets \<^verbatim>\<open>current\<close> to the entity and leaves the entity as it is. Only when \<^verbatim>\<open>current\<close>
  was not this entity already is \<^verbatim>\<open>previous\<close> copied from the entity; on a consecutive
  dispatch for the same entity \<^verbatim>\<open>previous\<close> keeps the content the preceding dispatch
  left (\<open>snapshotBase\<close>). That content is then patched by the one field: a tag is taken
  out of \<^verbatim>\<open>previous\<close> if the entity has it now, and put in if the entity does not; for a
  component the slot of its class is emptied in \<^verbatim>\<open>previous\<close> if the entity has any
  instance of the class now, and set to the component if it has none.
\<close>

lemma takeSnapshot_patches_previous:
  assumes "previous result \<noteq> this"
  shows "fst (takeSnapshot this result (Some x) rc s) = result\<lparr>current := Some this\<rparr> \<and>
         entityObjs (snd (takeSnapshot this result (Some x) rc s)) this = entityObjs s this \<and>
         (case x of
            IsTag t \<Rightarrow>
              tags (entityObjs (snd (takeSnapshot this result (Some x) rc s)) (previous result)) =
                (if t \<in> tags (entityObjs s this) then tags (snapshotBase this result s) - {t}
                 else insert t (tags (snapshotBase this result s))) \<and>
              components (entityObjs (snd (takeSnapshot this result (Some x) rc s)) (previous result)) =
                components (snapshotBase this result s)
          | IsComponent c \<Rightarrow>
              components (entityObjs (snd (takeSnapshot this result (Some x) rc s)) (previous result)) =
                (if components (entityObjs s this)
                      (fst (componentIdOf (case rc of Some k \<Rightarrow> k | None \<Rightarrow> proto (componentObjs s c)) s))
                    \<noteq> None
                 then (components (snapshotBase this result s))
                        (fst (componentIdOf (case rc of Some k \<Rightarrow> k | None \<Rightarrow> proto (componentObjs s c)) s)
                           := None)
                 else (components (snapshotBase this result s))
                        (fst (componentIdOf (case rc of Some k \<Rightarrow> k | None \<Rightarrow> proto (componentObjs s c)) s)
                           \<mapsto> c)) \<and>
              tags (entityObjs (snd (takeSnapshot this result (Some x) rc s)) (previous result)) =
                tags (snapshotBase this result s)) \<and>
         linkedComponents (entityObjs (snd (takeSnapshot this result (Some x) rc s)) (previous result)) =
           linkedComponents (snapshotBase this result s)"
proof (cases x)
  case (IsTag t)
  show ?thesis
    unfolding IsTag ComponentOrTag.case snapshotBase_def
    using takeSnapshot_tag[OF assms, where t=t and rc=rc and s=s]
      takeSnapshot_current[where this=this and result=result and changed="Some (IsTag t)" and rc=rc and s=s]
      takeSnapshot_entity[OF assms, where changed="Some (IsTag t)" and rc=rc and s=s]
    by blast
next
  case (IsComponent c)
  show ?thesis
    unfolding IsComponent ComponentOrTag.case snapshotBase_def
    using takeSnapshot_component[OF assms refl, where rc=rc and s=s and c=c]
      takeSnapshot_current[where this=this and result=result and changed="Some (IsComponent c)" and rc=rc and s=s]
      takeSnapshot_entity[OF assms, where changed="Some (IsComponent c)" and rc=rc and s=s]
    by blast
qed

text \<open>
  A first dispatch in the example store: entity 1 has just got the tag 7, and the
  snapshot (whose \<^verbatim>\<open>previous\<close> is entity 2) has no \<^verbatim>\<open>current\<close> yet. Then \<^verbatim>\<open>previous\<close>
  is the entity without the tag.
\<close>

lemma takeSnapshot_patches_previous_witness:
  "\<exists>s0. addTag observe 0 1 (TagNumber 7) exampleStore = Some (Return () s0) \<and>
     tags (entityObjs s0 1) = {TagNumber 7} \<and>
     fst (takeSnapshot 1 \<lparr>current = None, previous = 2\<rparr> (Some (IsTag (TagNumber 7))) None s0)
       = \<lparr>current = Some 1, previous = 2\<rparr> \<and>
     tags (entityObjs (snd (takeSnapshot 1 \<lparr>current = None, previous = 2\<rparr>
                              (Some (IsTag (TagNumber 7))) None s0)) 2) = {}"
proof -
  obtain s0 where a: "addTag observe 0 1 (TagNumber 7) exampleStore = Some (Return () s0)"
    and t: "tags (entityObjs s0 1) = {TagNumber 7}"
    by (simp add: addTag_def hasTag_def dispatchOnComponentAdded_observe exampleStore_def
        newEntityObj_def)
  have p: "previous \<lparr>current = None, previous = 2\<rparr> \<noteq> (1::nat)" by simp
  from takeSnapshot_patches_previous[OF p, where x="IsTag (TagNumber 7)" and rc=None and s=s0] t a
  show ?thesis
    by (auto simp add: snapshotBase_def)
qed

text \<open>
  Two dispatches through one snapshot object. Entity 1 of the example store gets the
  tag 7 and a snapshot is taken for that tag; then it gets the tag 8 and a snapshot is
  taken for that tag, through the same snapshot object. The entity now has the tags 7
  and 8, and its state before the second change had the tag 7; but \<^verbatim>\<open>previous\<close> was not
  copied again and holds no tag.
\<close>

lemma takeSnapshot_twice:
  "\<exists>s0 s1. addTag observe 0 1 (TagNumber 7) exampleStore = Some (Return () s0) \<and>
     addTag observe 0 1 (TagNumber 8)
        (snd (takeSnapshot 1 \<lparr>current = None, previous = 2\<rparr> (Some (IsTag (TagNumber 7))) None s0))
       = Some (Return () s1) \<and>
     tags (entityObjs s1 1) = {TagNumber 7, TagNumber 8} \<and>
     tags (entityObjs
             (snd (takeSnapshot 1
                     (fst (takeSnapshot 1 \<lparr>current = None, previous = 2\<rparr>
                             (Some (IsTag (TagNumber 7))) None s0))
                     (Some (IsTag (TagNumber 8))) None s1)) 2) = {}"
  by (simp add: addTag_def hasTag_def has_def dispatchOnComponentAdded_observe exampleStore_def
      newEntityObj_def takeSnapshot_def copyFrom_def setEntity_def insert_commute)

text \<open>
  Claim C3 fails on the code on a dispatch that follows another dispatch of the same
  snapshot object for the same entity: \<^verbatim>\<open>takeSnapshot\<close> copies \<^verbatim>\<open>previous\<close> only when
  \<^verbatim>\<open>current\<close> is not the entity yet. In the example world with the predicate
  \<^verbatim>\<open>e => e.has(Damage)\<close>, the instance 10 is appended to the entity 3, which makes it a
  member (the first dispatch of the query's snapshot), the tag 7 is added, and then
  \<^verbatim>\<open>withdraw(Damage)\<close> takes the instance off, which evicts the entity. Before
  that change the entity had the instance 10 and the tag 7. The listener of
  \<^verbatim>\<open>onEntityRemoved\<close> is handed a snapshot whose \<^verbatim>\<open>previous\<close> has the instance 10
  and no tag.
\<close>

theorem takeSnapshot_previous_is_stale:
  "case bind (append route 3 3 10 None (exampleWorld hasDamage)) (\<lambda>_.
          add route 3 3 (IsTag (TagNumber 7)) None) of
     Some (Return u w2) \<Rightarrow>
       tags (entityObjs w2 3) = {TagNumber 7} \<and> get 3 Damage w2 = Some 10 \<and>
       entities (queryObjs w2 0) = [3] \<and>
       (case withdraw route 3 3 Damage w2 of
          Some (Return r w3) \<Rightarrow>
            r = Some 10 \<and> entities (queryObjs w3 0) = [] \<and>
            (case last (observed w3) of
               (h, SnapshotRemoved q c P) \<Rightarrow>
                 h = Observer 0 \<and> q = 0 \<and> c = Some 3 \<and> components P 1 = Some 10 \<and> tags P = {}
             | _ \<Rightarrow> False)
        | _ \<Rightarrow> False)
   | _ \<Rightarrow> False"
  by code_simp

text \<open>
  A linked component that leaves other instances behind: the instances 10 and 11 are
  appended to the entity 3 and 10 is withdrawn. A first dispatch for the instance 10
  finds that the entity still has \<open>Damage\<close> and empties the slot of \<^verbatim>\<open>previous\<close>,
  although the entity had \<open>Damage\<close> before the change as well.
\<close>

lemma takeSnapshot_drops_remaining_linked:
  "case bind (append route 3 3 10 None (exampleWorld hasDamage)) (\<lambda>_. append route 3 3 11 None) of
     Some (Return u w2) \<Rightarrow>
       (case withdraw observe 3 3 Damage w2 of
          Some (Return r w3) \<Rightarrow>
            r = Some 10 \<and> get 3 Damage w3 = Some 11 \<and>
            (case takeSnapshot 3 \<lparr>current = None, previous = 2\<rparr> (Some (IsComponent 10)) None w3 of
               (snap, w4) \<Rightarrow> components (entityObjs w4 2) 1 = None)
        | _ \<Rightarrow> False)
   | _ \<Rightarrow> False"
  by code_simp

subsection \<open>The shadow entity of a query\<close>

lemma world_frame [simp]:
  "queryObjs (setEntity a f w) = queryObjs w"
  "queryObjs (copyFrom a b w) = queryObjs w"
  "queryObjs (clear a w) = queryObjs w"
  "queryObjs (snd (componentIdOf T w)) = queryObjs w"
  "engine_queries (setEntity a f w) = engine_queries w"
  "engine_queries (copyFrom a b w) = engine_queries w"
  "engine_queries (clear a w) = engine_queries w"
  "engine_queries (snd (componentIdOf T w)) = engine_queries w"
  by (simp_all add: setEntity_def copyFrom_def clear_def componentIdOf_def getComponentId_def
        split: option.splits)

lemma takeSnapshot_frame [simp]:
  "queryObjs (snd (takeSnapshot this result changed rc w)) = queryObjs w"
  "engine_queries (snd (takeSnapshot this result changed rc w)) = engine_queries w"
  "observed (snd (takeSnapshot this result changed rc w)) = observed w"
  by (auto simp add: takeSnapshot_def Let_def case_prod_beta
        split: option.splits ComponentOrTag.splits)

lemma snapshotAndEmit_observed:
  "\<exists>P w'. snapshotAndEmit added n q e changed cc w = Some (Return () w') \<and>
     entities (queryObjs w' q) = entities (queryObjs w q) \<and>
     observed w' = observed w @
       (if added
        then map (\<lambda>it. (handler it, SnapshotAdded q (Some e) P)) (onEntityAdded (queryObjs w q))
        else map (\<lambda>it. (handler it, SnapshotRemoved q (Some e) P)) (onEntityRemoved (queryObjs w q)))"
  by (simp add: snapshotAndEmit_def case_prod_beta Let_def emit_observe setQuery_def
        takeSnapshot_current)

lemma copy_shadow:
  assumes "h \<noteq> e"
  shows "entityObjs (copyFrom h e (clear h w)) e = entityObjs w e"
    and "tags (entityObjs (copyFrom h e (clear h w)) h) = tags (entityObjs w e)"
    and "components (entityObjs (copyFrom h e (clear h w)) h) = components (entityObjs w e)"
    and "linkedComponents (entityObjs (copyFrom h e (clear h w)) h) = linkedComponents (entityObjs w e)"
  using assms by (simp_all add: copyFrom_def clear_def setEntity_def)

lemma updateHelper_tag:
  assumes "helper (queryObjs w q) \<noteq> e"
  shows "\<exists>w1. updateHelper n q e (IsTag t) cc w = Some (Return () w1) \<and>
     queryObjs w1 = queryObjs w \<and> entityObjs w1 e = entityObjs w e \<and>
     tags (entityObjs w1 (helper (queryObjs w q))) = insert t (tags (entityObjs w e)) \<and>
     components (entityObjs w1 (helper (queryObjs w q))) = components (entityObjs w e) \<and>
     linkedComponents (entityObjs w1 (helper (queryObjs w q))) = linkedComponents (entityObjs w e)"
  using assms
  by (auto simp add: updateHelper_def Let_def add_def addTag_def hasTag_def
        dispatchOnComponentAdded_observe copy_shadow)


lemma updateHelper_plain:
  assumes he: "helper (queryObjs w q) \<noteq> e"
    and plain: "\<not> isLinkedComponent (componentObjs w c)"
    and slot: "components (entityObjs w e) (fst (componentIdOf (proto (componentObjs w c)) w)) = None"
  shows "\<exists>w1. updateHelper n q e (IsComponent c) cc w = Some (Return () w1) \<and>
     queryObjs w1 = queryObjs w \<and> entityObjs w1 e = entityObjs w e \<and>
     tags (entityObjs w1 (helper (queryObjs w q))) = tags (entityObjs w e) \<and>
     components (entityObjs w1 (helper (queryObjs w q))) =
       (components (entityObjs w e))(fst (componentIdOf (proto (componentObjs w c)) w) \<mapsto> c) \<and>
     linkedComponents (entityObjs w1 (helper (queryObjs w q))) = linkedComponents (entityObjs w e)"
proof -
  let ?h = "helper (queryObjs w q)"
  let ?w0 = "copyFrom ?h e (clear ?h w)"
  let ?T = "proto (componentObjs w c)"
  have id: "fst (componentIdOf ?T ?w0) = fst (componentIdOf ?T w)"
    by (simp add: componentIdOf_def getComponentId_def split: option.splits)
  have slot0: "components (entityObjs ?w0 ?h) (fst (componentIdOf ?T ?w0)) = None"
    using he slot by (simp add: id copy_shadow)
  show ?thesis
    using he plain slot0
    by (simp add: updateHelper_def Let_def add_def addComponent_def getComponentClass_def
          case_prod_beta dispatchOnComponentAdded_observe copy_shadow id)
qed

lemma updateHelper_linked_present:
  assumes he: "helper (queryObjs w q) \<noteq> e"
    and linked: "isLinkedComponent (componentObjs w c)"
    and present: "hasComponent e (proto (componentObjs w c)) w"
  shows "\<exists>w1. updateHelper n q e (IsComponent c) None w = Some (Return () w1) \<and>
     queryObjs w1 = queryObjs w \<and> entityObjs w1 e = entityObjs w e \<and>
     tags (entityObjs w1 (helper (queryObjs w q))) = tags (entityObjs w e) \<and>
     components (entityObjs w1 (helper (queryObjs w q))) = components (entityObjs w e) \<and>
     linkedComponents (entityObjs w1 (helper (queryObjs w q))) = linkedComponents (entityObjs w e)"
proof -
  let ?h = "helper (queryObjs w q)"
  let ?w0 = "copyFrom ?h e (clear ?h w)"
  have "hasComponent ?h (proto (componentObjs w c)) ?w0"
    using present he
    by (simp add: hasComponent_def getComponentId_lookup copy_shadow split: option.splits)
  then show ?thesis
    using he linked
    by (simp add: updateHelper_def Let_def getComponentClass_def has_def copy_shadow)
qed

lemma updateHelper_linked_absent:
  assumes he: "helper (queryObjs w q) \<noteq> e"
    and linked: "isLinkedComponent (componentObjs w c)"
    and absent: "noLinked w e (proto (componentObjs w c))"
  shows "\<exists>w1. updateHelper n q e (IsComponent c) None w = Some (Return () w1) \<and>
     queryObjs w1 = queryObjs w \<and> entityObjs w1 e = entityObjs w e \<and>
     tags (entityObjs w1 (helper (queryObjs w q))) = tags (entityObjs w e) \<and>
     components (entityObjs w1 (helper (queryObjs w q))) =
       (components (entityObjs w e))(fst (componentIdOf (proto (componentObjs w c)) w) \<mapsto> c) \<and>
     linkedComponents (entityObjs w1 (helper (queryObjs w q))) =
       (linkedComponents (entityObjs w e))
         (fst (componentIdOf (proto (componentObjs w c)) w) \<mapsto> listCount w) \<and>
     listObjs w1 (listCount w) = Some c"
proof -
  let ?h = "helper (queryObjs w q)"
  let ?w0 = "copyFrom ?h e (clear ?h w)"
  let ?T = "proto (componentObjs w c)"
  have id: "fst (componentIdOf ?T ?w0) = fst (componentIdOf ?T w)"
    by (simp add: componentIdOf_def getComponentId_def split: option.splits)
  have nh: "\<not> hasComponent ?h ?T ?w0"
    using absent he
    by (auto simp add: hasComponent_def getComponentId_lookup copy_shadow noLinked_def
          componentIdOf_def getComponentId_def split: option.splits)
  have nl: "noLinked ?w0 ?h ?T"
    using absent he by (simp add: noLinked_def id copy_shadow)
  have cls: "getComponentClass (componentObjs ?w0 c) None = Inr ?T"
    by (simp add: getComponentClass_def)
  have up: "updateHelper n q e (IsComponent c) None w = appendComponent observe n ?h c None ?w0"
    using linked nh by (simp add: updateHelper_def Let_def getComponentClass_def has_def append_def)
  show ?thesis
    unfolding up appendComponent_first[OF nl cls]
    using he by (simp add: id copy_shadow)
qed


lemma removal_transition:
  assumes up: "updateHelper n q e x cc w = Some (Return () w1)"
    and qs: "queryObjs w1 = queryObjs w"
  shows "\<exists>w'. entityComponentRemoved n q e x cc w = Some (Return () w') \<and>
     entities (queryObjs w' q) =
       (if e \<in> set (entities (queryObjs w q)) \<and> test q (helper (queryObjs w q)) w1 \<and> \<not> test q e w1
        then remove1 e (entities (queryObjs w q))
        else if e \<notin> set (entities (queryObjs w q)) \<and> test q e w1
                \<and> \<not> test q (helper (queryObjs w q)) w1
        then entities (queryObjs w q) @ [e]
        else entities (queryObjs w q)) \<and>
     (\<exists>P. observed w' = observed w1 @
       (if e \<in> set (entities (queryObjs w q)) \<and> test q (helper (queryObjs w q)) w1 \<and> \<not> test q e w1
        then map (\<lambda>it. (handler it, SnapshotRemoved q (Some e) P)) (onEntityRemoved (queryObjs w q))
        else if e \<notin> set (entities (queryObjs w q)) \<and> test q e w1
                \<and> \<not> test q (helper (queryObjs w q)) w1
        then map (\<lambda>it. (handler it, SnapshotAdded q (Some e) P)) (onEntityAdded (queryObjs w q))
        else []))"
proof -
  let ?es = "entities (queryObjs w q)"
  let ?evict = "e \<in> set ?es \<and> test q (helper (queryObjs w q)) w1 \<and> \<not> test q e w1"
  let ?admit = "e \<notin> set ?es \<and> test q e w1 \<and> \<not> test q (helper (queryObjs w q)) w1"
  consider (evict) "?evict" | (admit) "\<not> ?evict" "?admit" | (none) "\<not> ?evict" "\<not> ?admit"
    by blast
  then show ?thesis
  proof cases
    case evict
    let ?w2 = "setQuery q (\<lambda>Q. Q\<lparr>entities := remove1 e (entities Q)\<rparr>) w1"
    from snapshotAndEmit_observed[of False n q e "Some x" cc ?w2]
    obtain P w' where s: "snapshotAndEmit False n q e (Some x) cc ?w2 = Some (Return () w')"
      and es: "entities (queryObjs w' q) = entities (queryObjs ?w2 q)"
      and ob: "observed w' = observed ?w2 @
         map (\<lambda>it. (handler it, SnapshotRemoved q (Some e) P)) (onEntityRemoved (queryObjs ?w2 q))"
      by auto
    show ?thesis
    proof (cases "hasHandlers (onEntityRemoved (queryObjs w q))")
      case True
      then have "entityComponentRemoved n q e x cc w = Some (Return () w')"
        using evict up qs s by (simp add: entityComponentRemoved_def Let_def query_has_def)
      moreover have "entities (queryObjs w' q) = remove1 e ?es"
        using es qs by (simp add: setQuery_def)
      moreover have "observed w' = observed w1 @
         map (\<lambda>it. (handler it, SnapshotRemoved q (Some e) P)) (onEntityRemoved (queryObjs w q))"
        using ob qs by (simp add: setQuery_def)
      ultimately show ?thesis using evict by auto
    next
      case False
      then have "entityComponentRemoved n q e x cc w = Some (Return () ?w2)"
        using evict up qs by (simp add: entityComponentRemoved_def Let_def query_has_def)
      moreover have "entities (queryObjs ?w2 q) = remove1 e ?es"
        using qs by (simp add: setQuery_def)
      moreover have "observed ?w2 = observed w1 @
         map (\<lambda>it. (handler it, SnapshotRemoved q (Some e) newEntityObj)) (onEntityRemoved (queryObjs w q))"
        using False by (simp add: setQuery_def hasHandlers_def)
      ultimately show ?thesis using evict by auto
    qed
  next
    case admit
    let ?w2 = "setQuery q (\<lambda>Q. Q\<lparr>entities := entities Q @ [e]\<rparr>) w1"
    from snapshotAndEmit_observed[of True n q e "Some x" cc ?w2]
    obtain P w' where s: "snapshotAndEmit True n q e (Some x) cc ?w2 = Some (Return () w')"
      and es: "entities (queryObjs w' q) = entities (queryObjs ?w2 q)"
      and ob: "observed w' = observed ?w2 @
         map (\<lambda>it. (handler it, SnapshotAdded q (Some e) P)) (onEntityAdded (queryObjs ?w2 q))"
      by auto
    show ?thesis
    proof (cases "hasHandlers (onEntityAdded (queryObjs w q))")
      case True
      then have "entityComponentRemoved n q e x cc w = Some (Return () w')"
        using admit up qs s by (simp add: entityComponentRemoved_def Let_def query_has_def)
      moreover have "entities (queryObjs w' q) = ?es @ [e]"
        using es qs by (simp add: setQuery_def)
      moreover have "observed w' = observed w1 @
         map (\<lambda>it. (handler it, SnapshotAdded q (Some e) P)) (onEntityAdded (queryObjs w q))"
        using ob qs by (simp add: setQuery_def)
      ultimately show ?thesis using admit by auto
    next
      case False
      then have "entityComponentRemoved n q e x cc w = Some (Return () ?w2)"
        using admit up qs by (simp add: entityComponentRemoved_def Let_def query_has_def)
      moreover have "entities (queryObjs ?w2 q) = ?es @ [e]"
        using qs by (simp add: setQuery_def)
      moreover have "observed ?w2 = observed w1 @
         map (\<lambda>it. (handler it, SnapshotAdded q (Some e) newEntityObj)) (onEntityAdded (queryObjs w q))"
        using False by (simp add: setQuery_def hasHandlers_def)
      ultimately show ?thesis using admit by auto
    qed
  next
    case none
    then have "entityComponentRemoved n q e x cc w = Some (Return () w1)"
      using up qs by (auto simp add: entityComponentRemoved_def Let_def query_has_def)
    then show ?thesis using none qs by auto
  qed
qed


text \<open>
  What the code does. \<^verbatim>\<open>entityComponentRemoved\<close> is called for the removed
  tag or component \<open>x\<close> when the field is gone from the entity: a plain component's slot
  is empty, and a linked component has left its list, so that either the entity still
  has instances of the type or it has neither the slot nor the list.

  \<^verbatim>\<open>updateHelper\<close> returns and makes the shadow entity a copy of the entity as it is
  now. A tag and a plain component are then put back. A linked component is put back
  only when the entity has no instance of the type left, and then as the head of a list
  of the shadow's own; when the entity still has instances of the type, the shadow is
  left as the copy of the entity's present state.

  Then, with the predicate evaluated on that shadow and on the entity: a member for
  which the shadow matches and the entity does not is taken out of the query, and every
  listener of \<^verbatim>\<open>onEntityRemoved\<close> is called once; a non-member for which the entity
  matches and the shadow does not is appended, and every listener of
  \<^verbatim>\<open>onEntityAdded\<close> is called once; otherwise the members stay as they are and no
  listener is called.
\<close>

lemma entityComponentRemoved_shadow_transition:
  fixes w :: World
  assumes he: "helper (queryObjs w q) \<noteq> e"
    and gone: "case x of
                 IsTag t \<Rightarrow> True
               | IsComponent c \<Rightarrow>
                   if isLinkedComponent (componentObjs w c)
                   then hasComponent e (proto (componentObjs w c)) w
                        \<or> noLinked w e (proto (componentObjs w c))
                   else components (entityObjs w e)
                          (fst (componentIdOf (proto (componentObjs w c)) w)) = None"
  shows "\<exists>w1 w'.
     updateHelper n q e x None w = Some (Return () w1) \<and>
     queryObjs w1 = queryObjs w \<and> entityObjs w1 e = entityObjs w e \<and>
     tags (entityObjs w1 (helper (queryObjs w q))) =
       (case x of IsTag t \<Rightarrow> insert t (tags (entityObjs w e))
        | IsComponent c \<Rightarrow> tags (entityObjs w e)) \<and>
     components (entityObjs w1 (helper (queryObjs w q))) =
       (case x of IsTag t \<Rightarrow> components (entityObjs w e)
        | IsComponent c \<Rightarrow>
            if isLinkedComponent (componentObjs w c) \<and> hasComponent e (proto (componentObjs w c)) w
            then components (entityObjs w e)
            else (components (entityObjs w e))
                   (fst (componentIdOf (proto (componentObjs w c)) w) \<mapsto> c)) \<and>
     linkedComponents (entityObjs w1 (helper (queryObjs w q))) =
       (case x of IsTag t \<Rightarrow> linkedComponents (entityObjs w e)
        | IsComponent c \<Rightarrow>
            if isLinkedComponent (componentObjs w c) \<and> \<not> hasComponent e (proto (componentObjs w c)) w
            then (linkedComponents (entityObjs w e))
                   (fst (componentIdOf (proto (componentObjs w c)) w) \<mapsto> listCount w)
            else linkedComponents (entityObjs w e)) \<and>
     entityComponentRemoved n q e x None w = Some (Return () w') \<and>
     entities (queryObjs w' q) =
       (if e \<in> set (entities (queryObjs w q)) \<and> test q (helper (queryObjs w q)) w1 \<and> \<not> test q e w1
        then remove1 e (entities (queryObjs w q))
        else if e \<notin> set (entities (queryObjs w q)) \<and> test q e w1
                \<and> \<not> test q (helper (queryObjs w q)) w1
        then entities (queryObjs w q) @ [e]
        else entities (queryObjs w q)) \<and>
     (\<exists>P. observed w' = observed w1 @
       (if e \<in> set (entities (queryObjs w q)) \<and> test q (helper (queryObjs w q)) w1 \<and> \<not> test q e w1
        then map (\<lambda>it. (handler it, SnapshotRemoved q (Some e) P)) (onEntityRemoved (queryObjs w q))
        else if e \<notin> set (entities (queryObjs w q)) \<and> test q e w1
                \<and> \<not> test q (helper (queryObjs w q)) w1
        then map (\<lambda>it. (handler it, SnapshotAdded q (Some e) P)) (onEntityAdded (queryObjs w q))
        else []))"
proof -
  let ?h = "helper (queryObjs w q)"
  have "\<exists>w1. updateHelper n q e x None w = Some (Return () w1) \<and>
     queryObjs w1 = queryObjs w \<and> entityObjs w1 e = entityObjs w e \<and>
     tags (entityObjs w1 ?h) =
       (case x of IsTag t \<Rightarrow> insert t (tags (entityObjs w e))
        | IsComponent c \<Rightarrow> tags (entityObjs w e)) \<and>
     components (entityObjs w1 ?h) =
       (case x of IsTag t \<Rightarrow> components (entityObjs w e)
        | IsComponent c \<Rightarrow>
            if isLinkedComponent (componentObjs w c) \<and> hasComponent e (proto (componentObjs w c)) w
            then components (entityObjs w e)
            else (components (entityObjs w e))
                   (fst (componentIdOf (proto (componentObjs w c)) w) \<mapsto> c)) \<and>
     linkedComponents (entityObjs w1 ?h) =
       (case x of IsTag t \<Rightarrow> linkedComponents (entityObjs w e)
        | IsComponent c \<Rightarrow>
            if isLinkedComponent (componentObjs w c) \<and> \<not> hasComponent e (proto (componentObjs w c)) w
            then (linkedComponents (entityObjs w e))
                   (fst (componentIdOf (proto (componentObjs w c)) w) \<mapsto> listCount w)
            else linkedComponents (entityObjs w e))"
  proof (cases x)
    case (IsTag t)
    with updateHelper_tag[OF he, of n t None] show ?thesis by simp
  next
    case (IsComponent c)
    show ?thesis
    proof (cases "isLinkedComponent (componentObjs w c)")
      case False
      with gone IsComponent
      have "components (entityObjs w e) (fst (componentIdOf (proto (componentObjs w c)) w)) = None"
        by simp
      from updateHelper_plain[OF he False this, of n None] IsComponent False
      show ?thesis by simp
    next
      case True
      show ?thesis
      proof (cases "hasComponent e (proto (componentObjs w c)) w")
        case present: True
        from updateHelper_linked_present[OF he True present, of n] IsComponent True present
        show ?thesis by simp
      next
        case absent: False
        with gone IsComponent True have "noLinked w e (proto (componentObjs w c))" by simp
        from updateHelper_linked_absent[OF he True this, of n] IsComponent True absent
        show ?thesis by auto
      qed
    qed
  qed
  then obtain w1 where up: "updateHelper n q e x None w = Some (Return () w1)"
    and qs: "queryObjs w1 = queryObjs w"
    and rest: "entityObjs w1 e = entityObjs w e"
      "tags (entityObjs w1 ?h) =
       (case x of IsTag t \<Rightarrow> insert t (tags (entityObjs w e))
        | IsComponent c \<Rightarrow> tags (entityObjs w e))"
      "components (entityObjs w1 ?h) =
       (case x of IsTag t \<Rightarrow> components (entityObjs w e)
        | IsComponent c \<Rightarrow>
            if isLinkedComponent (componentObjs w c) \<and> hasComponent e (proto (componentObjs w c)) w
            then components (entityObjs w e)
            else (components (entityObjs w e))
                   (fst (componentIdOf (proto (componentObjs w c)) w) \<mapsto> c))"
      "linkedComponents (entityObjs w1 ?h) =
       (case x of IsTag t \<Rightarrow> linkedComponents (entityObjs w e)
        | IsComponent c \<Rightarrow>
            if isLinkedComponent (componentObjs w c) \<and> \<not> hasComponent e (proto (componentObjs w c)) w
            then (linkedComponents (entityObjs w e))
                   (fst (componentIdOf (proto (componentObjs w c)) w) \<mapsto> listCount w)
            else linkedComponents (entityObjs w e))"
    by blast
  from removal_transition[OF up qs] obtain w' where
    "entityComponentRemoved n q e x None w = Some (Return () w') \<and>
     entities (queryObjs w' q) =
       (if e \<in> set (entities (queryObjs w q)) \<and> test q ?h w1 \<and> \<not> test q e w1
        then remove1 e (entities (queryObjs w q))
        else if e \<notin> set (entities (queryObjs w q)) \<and> test q e w1 \<and> \<not> test q ?h w1
        then entities (queryObjs w q) @ [e]
        else entities (queryObjs w q)) \<and>
     (\<exists>P. observed w' = observed w1 @
       (if e \<in> set (entities (queryObjs w q)) \<and> test q ?h w1 \<and> \<not> test q e w1
        then map (\<lambda>it. (handler it, SnapshotRemoved q (Some e) P)) (onEntityRemoved (queryObjs w q))
        else if e \<notin> set (entities (queryObjs w q)) \<and> test q e w1 \<and> \<not> test q ?h w1
        then map (\<lambda>it. (handler it, SnapshotAdded q (Some e) P)) (onEntityAdded (queryObjs w q))
        else []))"
    by blast
  with up qs rest show ?thesis by blast
qed

text \<open>
  In the example world with the predicate \<^verbatim>\<open>e => e.has(Damage)\<close>, the instance 10 is
  appended to the entity 3, which makes it a member, and is then withdrawn without the
  handlers being run. Called for the instance 10 in that state, \<^verbatim>\<open>updateHelper\<close> puts
  the instance back into the shadow entity 1, and \<^verbatim>\<open>entityComponentRemoved\<close> takes the
  entity out of the query and calls the one listener of \<^verbatim>\<open>onEntityRemoved\<close> once.
\<close>

lemma entityComponentRemoved_shadow_transition_witness:
  "case bind (append route 3 3 10 None (exampleWorld hasDamage))
          (\<lambda>_. withdraw observe 3 3 Damage) of
     Some (Return r w) \<Rightarrow>
       r = Some 10 \<and> entities (queryObjs w 0) = [3] \<and> noLinked w 3 Damage \<and>
       (\<exists>w1 w' P. updateHelper 3 0 3 (IsComponent 10) None w = Some (Return () w1) \<and>
          components (entityObjs w1 1) 1 = Some 10 \<and>
          entityComponentRemoved 3 0 3 (IsComponent 10) None w = Some (Return () w') \<and>
          entities (queryObjs w' 0) = [] \<and>
          observed w' = observed w1 @ [(Observer 0, SnapshotRemoved 0 (Some 3) P)])
   | _ \<Rightarrow> False"
proof -
  let ?run = "bind (append route 3 3 10 None (exampleWorld hasDamage))
          (\<lambda>_. withdraw observe 3 3 Damage)"
  have ev: "case ?run of
     Some (Return r w) \<Rightarrow>
       r = Some 10 \<and> entities (queryObjs w 0) = [3] \<and> noLinked w 3 Damage \<and>
       helper (queryObjs w 0) = 1 \<and> isLinkedComponent (componentObjs w 10) \<and>
       proto (componentObjs w 10) = Damage \<and> fst (componentIdOf Damage w) = 1 \<and>
       \<not> hasComponent 3 Damage w \<and> components (entityObjs w 3) 1 = None \<and>
       onEntityRemoved (queryObjs w 0) = [\<lparr>handler = Observer 0, priority = Finite 0\<rparr>] \<and>
       (case updateHelper 3 0 3 (IsComponent 10) None w of
          Some (Return u w1) \<Rightarrow> test 0 1 w1 \<and> \<not> test 0 3 w1
        | _ \<Rightarrow> False)
   | _ \<Rightarrow> False"
    by code_simp
  then obtain r w where run: "?run = Some (Return r w)"
    by (auto split: option.splits outcome.splits)
  from ev run have f: "r = Some 10" "entities (queryObjs w 0) = [3]" "noLinked w 3 Damage"
      "helper (queryObjs w 0) = 1" "isLinkedComponent (componentObjs w 10)"
      "proto (componentObjs w 10) = Damage" "fst (componentIdOf Damage w) = 1"
      "\<not> hasComponent 3 Damage w" "components (entityObjs w 3) 1 = None"
      "onEntityRemoved (queryObjs w 0) = [\<lparr>handler = Observer 0, priority = Finite 0\<rparr>]"
    and t: "case updateHelper 3 0 3 (IsComponent 10) None w of
          Some (Return u w1) \<Rightarrow> test 0 1 w1 \<and> \<not> test 0 3 w1
        | _ \<Rightarrow> False"
    by simp_all
  have he: "helper (queryObjs w 0) \<noteq> 3" using f by simp
  have gone: "case IsComponent 10 of
                 IsTag t \<Rightarrow> True
               | IsComponent c \<Rightarrow>
                   if isLinkedComponent (componentObjs w c)
                   then hasComponent 3 (proto (componentObjs w c)) w
                        \<or> noLinked w 3 (proto (componentObjs w c))
                   else components (entityObjs w 3)
                          (fst (componentIdOf (proto (componentObjs w c)) w)) = None"
    using f by simp
  from entityComponentRemoved_shadow_transition[OF he gone, of 3]
  obtain w1 w' P where up: "updateHelper 3 0 3 (IsComponent 10) None w = Some (Return () w1)"
    and co: "components (entityObjs w1 (helper (queryObjs w 0))) =
       (case IsComponent 10 of IsTag t \<Rightarrow> components (entityObjs w 3)
        | IsComponent c \<Rightarrow>
            if isLinkedComponent (componentObjs w c) \<and> hasComponent 3 (proto (componentObjs w c)) w
            then components (entityObjs w 3)
            else (components (entityObjs w 3))
                   (fst (componentIdOf (proto (componentObjs w c)) w) \<mapsto> c))"
    and rm: "entityComponentRemoved 3 0 3 (IsComponent 10) None w = Some (Return () w')"
    and es: "entities (queryObjs w' 0) =
       (if 3 \<in> set (entities (queryObjs w 0)) \<and> test 0 (helper (queryObjs w 0)) w1 \<and> \<not> test 0 3 w1
        then remove1 3 (entities (queryObjs w 0))
        else if 3 \<notin> set (entities (queryObjs w 0)) \<and> test 0 3 w1
                \<and> \<not> test 0 (helper (queryObjs w 0)) w1
        then entities (queryObjs w 0) @ [3]
        else entities (queryObjs w 0))"
    and ob: "observed w' = observed w1 @
       (if 3 \<in> set (entities (queryObjs w 0)) \<and> test 0 (helper (queryObjs w 0)) w1 \<and> \<not> test 0 3 w1
        then map (\<lambda>it. (handler it, SnapshotRemoved 0 (Some 3) P)) (onEntityRemoved (queryObjs w 0))
        else if 3 \<notin> set (entities (queryObjs w 0)) \<and> test 0 3 w1
                \<and> \<not> test 0 (helper (queryObjs w 0)) w1
        then map (\<lambda>it. (handler it, SnapshotAdded 0 (Some 3) P)) (onEntityAdded (queryObjs w 0))
        else [])"
    by blast
  from t up have tt: "test 0 1 w1" "\<not> test 0 3 w1" by simp_all
  have "components (entityObjs w1 1) 1 = Some 10" using co f by simp
  moreover have "entities (queryObjs w' 0) = []" using es f tt by simp
  moreover have "observed w' = observed w1 @ [(Observer 0, SnapshotRemoved 0 (Some 3) P)]"
    using ob f tt by simp
  ultimately show ?thesis using run f up rm by auto
qed

text \<open>
  Claim C2 fails on the code when a linked component is removed and other instances of
  its type remain: \<^verbatim>\<open>updateHelper\<close> appends the removed instance to the shadow only if
  the shadow, which it has just copied from the entity, has no instance of the type. In
  the example world with the predicate \<^verbatim>\<open>e => e.lengthOf(Damage) >= 2\<close>, the instances
  10 and 11 are appended to the entity 3, which makes it a member; its slot for \<open>Damage\<close>
  holds the head, 10. Then 10 is withdrawn, without the handlers being run. Called for
  the instance 10 in that state, \<^verbatim>\<open>entityComponentRemoved\<close> leaves the shadow entity 1
  with the slot holding 11 and with the list of the one instance 11, so the predicate is
  false on the shadow. The entity, which satisfied the predicate before the removal and
  does not now, stays a member, and no listener is called (the observers have taken note
  of no further call).
\<close>

theorem entityComponentRemoved_misses_eviction:
  "case bind (append route 3 3 10 None (exampleWorld atLeastTwoDamages))
          (\<lambda>_. append route 3 3 11 None) of
     Some (Return u w2) \<Rightarrow>
       entities (queryObjs w2 0) = [3] \<and> test 0 3 w2 \<and> get 3 Damage w2 = Some 10 \<and>
       (case withdraw observe 3 3 Damage w2 of
          Some (Return r w3) \<Rightarrow>
            r = Some 10 \<and> get 3 Damage w3 = Some 11 \<and>
            (case entityComponentRemoved 3 0 3 (IsComponent 10) None w3 of
               Some (Return v w4) \<Rightarrow>
                 get 1 Damage w4 = Some 11 \<and>
                 (case lengthOf 3 1 Damage w4 of Some (Return k w5) \<Rightarrow> k = 1 | _ \<Rightarrow> False) \<and>
                 \<not> test 0 1 w4 \<and> \<not> test 0 3 w4 \<and>
                 entities (queryObjs w4 0) = [3] \<and> length (observed w4) = length (observed w3)
             | _ \<Rightarrow> False)
        | _ \<Rightarrow> False)
   | _ \<Rightarrow> False"
  by code_simp

subsection \<open>The members of a query of the engine\<close>

text \<open>
  Claim C1 fails on the code for a predicate over the number of linked components (the
  defect of \<^verbatim>\<open>updateHelper\<close> that also breaks claim C2). In the example world the query
  with the predicate \<^verbatim>\<open>e => e.lengthOf(Damage) >= 2\<close> is attached to the engine and the
  entity 3 is connected to it. The instances 10 and 11 are appended to the entity, each
  followed by the engine's handling of the event: the entity is a member, and the
  predicate holds. Then \<^verbatim>\<open>withdraw(Damage)\<close> returns the instance 10 and the engine
  handles the event: the predicate is false of the entity, which has the one instance
  11, and the entity is still a member.
\<close>

theorem query_keeps_entity_that_stopped_matching:
  "case bind (append route 3 3 10 None (exampleWorld atLeastTwoDamages)) (\<lambda>_ w1.
        bind (append route 3 3 11 None w1) (\<lambda>_ w2.
        bind (withdraw route 3 3 Damage w2) (\<lambda>r w3.
          Some (Return (r, query_has 0 3 w2, test 0 3 w2, query_has 0 3 w3, test 0 3 w3,
                        get 3 Damage w3) w3)))) of
     Some (Return v w) \<Rightarrow> v = (Some 10, True, True, True, False, Some 11)
   | _ \<Rightarrow> False"
  by code_simp

end
